theory Spec2Isabelle
  imports Main
begin

section \<open>Data model\<close>

text \<open>
  The server keeps one shared-memory segment (\<^verbatim>\<open>SharedResources\<close>) that holds a table of
  philosophers, a table of chopsticks, two POSIX semaphores and two counters. This theory
  embeds the managers \<^verbatim>\<open>Chopstick.c\<close>, \<^verbatim>\<open>SharedResources.c\<close> and \<^verbatim>\<open>ServerPhilosopher.c\<close>.

  Conventions of the embedding:
  \<^item> a \<^verbatim>\<open>sem_t\<close> is its counter, a \<open>nat\<close>;
  \<^item> a \<^verbatim>\<open>Chopstick *\<close> is \<open>None\<close> for \<^verbatim>\<open>NULL\<close> and \<open>Some k\<close> for \<^verbatim>\<open>&sharedResources->chopsticks[k]\<close>
    (the code never builds any other chopstick pointer);
  \<^item> a \<^verbatim>\<open>ServerPhilosopher *\<close> returned by a function is likewise the slot index, or \<open>None\<close>;
  \<^item> the two live counters only ever grow from 0, so they are \<open>nat\<close>; identifiers and timers,
    which arrive from clients, are \<open>int\<close>;
  \<^item> a call runs without interruption until it returns or has to wait. A \<^verbatim>\<open>sem_wait\<close> on a
    semaphore whose counter is 0 suspends the call: its outcome is \<open>Waits s k w\<close>, where \<open>s\<close> is
    the semaphore waited for, \<open>w\<close> the memory as the call leaves it and \<open>k\<close> the rest of the
    call, to be run on the memory in which \<^verbatim>\<open>sem_wait\<close> takes its permit and returns (other
    calls may have changed the memory in between). Dereferencing \<^verbatim>\<open>NULL\<close> or indexing a table
    out of its bounds is \<open>Faults\<close>.
\<close>

definition MAX_PHILOSOPHERS :: nat where
  "MAX_PHILOSOPHERS = 7"

text \<open>
  \<^verbatim>\<open>PhilosopherState\<close> is a C enumeration, and an update carries it as read from the socket:
  \<open>INVALID\<close> stands for any value other than the three enumerators.
\<close>

datatype PhilosopherState = THINKING | HUNGRY | EATING | INVALID

record Philosopher =
  id_philosopher :: int
  state :: PhilosopherState
  stateTimer :: int

record Chopstick =
  id_chopstick :: int
  usage :: nat

record ServerPhilosopher =
  base :: Philosopher
  leftChopstick :: "nat option"
  rightChopstick :: "nat option"

text \<open>The semaphores of the segment, and the calls made on them.\<close>

datatype sem = MaxAllowedEating | PhilosopherCreationProcess | Usage nat

text \<open>
  A log record (\<^verbatim>\<open>Log\<close>): its \<^verbatim>\<open>type\<close> is \<^verbatim>\<open>SERVER_LOG_TYPE\<close> for \<^verbatim>\<open>logServerState\<close> and the pid of the
  calling service process for \<^verbatim>\<open>logClientInfo\<close>. The text is kept as the format string with
  its integer arguments (a \<^verbatim>\<open>%p\<close> argument is the slot index of the chopstick pointed to);
  accents, apostrophes, colour escapes and the final newline of the French messages are
  dropped. \<^verbatim>\<open>msgsnd\<close> appends the record to the queue; its result is ignored by the code.
\<close>

datatype log_type = SERVER_LOG_TYPE | CLIENT_PID

datatype Log = Log log_type string "int list"

datatype event =
    SemInit sem nat
  | SemWait sem
  | SemTryWait sem bool
  | SemPost sem
  | MsgSnd Log

record SharedResources =
  maxAllowedEating :: nat
  philosopherCreationProcess :: nat
  philosophers :: "ServerPhilosopher list"
  numberPhilosophers :: nat
  chopsticks :: "Chopstick list"
  numberChopsticks :: nat
  logsQueueId :: int

text \<open>
  The world is the segment together with the chronological record of the semaphore calls
  that have returned and of the log messages sent to the queue. A \<^verbatim>\<open>sem_trywait\<close> is recorded
  with its result, a \<^verbatim>\<open>sem_wait\<close> when it takes its permit and returns.
\<close>

record world = SharedResources +
  trace :: "event list"

datatype 'a outcome =
    Returns 'a world
  | Waits sem "world \<Rightarrow> 'a outcome" world
  | Faults world

text \<open>Sequencing: what follows a call that waits becomes part of what is left to run.\<close>

primrec andThen :: "'a outcome \<Rightarrow> ('a \<Rightarrow> world \<Rightarrow> 'b outcome) \<Rightarrow> 'b outcome" where
  "andThen (Returns x w) f = f x w"
| "andThen (Waits s k w) f = Waits s (\<lambda>v. andThen (k v) f) w"
| "andThen (Faults w) f = Faults w"

section \<open>Semaphores and logs\<close>

fun sem_getvalue :: "sem \<Rightarrow> world \<Rightarrow> nat" where
  "sem_getvalue MaxAllowedEating w = maxAllowedEating w"
| "sem_getvalue PhilosopherCreationProcess w = philosopherCreationProcess w"
| "sem_getvalue (Usage k) w = usage (chopsticks w ! k)"

fun sem_setvalue :: "sem \<Rightarrow> nat \<Rightarrow> world \<Rightarrow> world" where
  "sem_setvalue MaxAllowedEating v w = w\<lparr>maxAllowedEating := v\<rparr>"
| "sem_setvalue PhilosopherCreationProcess v w = w\<lparr>philosopherCreationProcess := v\<rparr>"
| "sem_setvalue (Usage k) v w =
     w\<lparr>chopsticks := (chopsticks w)[k := (chopsticks w ! k)\<lparr>usage := v\<rparr>]\<rparr>"

definition emit :: "event \<Rightarrow> world \<Rightarrow> world" where
  "emit e w = w\<lparr>trace := trace w @ [e]\<rparr>"

definition sem_init :: "sem \<Rightarrow> nat \<Rightarrow> world \<Rightarrow> world" where
  "sem_init s v w = emit (SemInit s v) (sem_setvalue s v w)"

definition sem_post :: "sem \<Rightarrow> world \<Rightarrow> world" where
  "sem_post s w = emit (SemPost s) (sem_setvalue s (sem_getvalue s w + 1) w)"

text \<open>\<^verbatim>\<open>sem_trywait\<close>: \<open>True\<close> when the permit was taken, \<open>False\<close> for \<^verbatim>\<open>-1\<close> with \<^verbatim>\<open>EAGAIN\<close>.\<close>

definition sem_trywait :: "sem \<Rightarrow> world \<Rightarrow> bool \<times> world" where
  "sem_trywait s w =
     (if 0 < sem_getvalue s w
      then (True, emit (SemTryWait s True) (sem_setvalue s (sem_getvalue s w - 1) w))
      else (False, emit (SemTryWait s False) w))"

text \<open>Taking a permit: the counter goes down by one and the call is recorded.\<close>

definition decrement :: "sem \<Rightarrow> event \<Rightarrow> world \<Rightarrow> world" where
  "decrement s e w = emit e (sem_setvalue s (sem_getvalue s w - 1) w)"

text \<open>
  \<open>wake out v\<close>: the memory has become \<open>v\<close>. A call suspended on a semaphore whose counter is
  positive in \<open>v\<close> takes the permit and runs on; one whose semaphore is still at 0 stays
  suspended. \<^verbatim>\<open>sem_wait\<close> is a call that does nothing but wait for its permit, woken at once
  in the memory it is called in.
\<close>

fun wake :: "'a outcome \<Rightarrow> world \<Rightarrow> 'a outcome" where
  "wake (Waits s k w) v =
     (if 0 < sem_getvalue s v then k (decrement s (SemWait s) v) else Waits s k v)"
| "wake (Returns x w) v = Returns x w"
| "wake (Faults w) v = Faults w"

definition sem_wait :: "sem \<Rightarrow> world \<Rightarrow> unit outcome" where
  "sem_wait s w = wake (Waits s (\<lambda>v. Returns () v) w) w"

definition logServerState :: "string \<Rightarrow> int list \<Rightarrow> world \<Rightarrow> world" where
  "logServerState format args w = emit (MsgSnd (Log SERVER_LOG_TYPE format args)) w"

definition logClientInfo :: "string \<Rightarrow> world \<Rightarrow> world" where
  "logClientInfo message w = emit (MsgSnd (Log CLIENT_PID message [])) w"

text \<open>
  \<^verbatim>\<open>logClientAction\<close> formats the message with \<^verbatim>\<open>snprintf\<close> and hands it to \<^verbatim>\<open>logClientInfo\<close>;
  for a state other than thinking and eating the action text is an uninitialised pointer
  (the callers below only pass those two states).
\<close>

definition logClientAction :: "Philosopher \<Rightarrow> world \<Rightarrow> world" where
  "logClientAction philosopher w =
     emit (MsgSnd (Log CLIENT_PID
       (case state philosopher of
          THINKING \<Rightarrow> ''Le philosophe %d est en train de penser : %d secondes.''
        | EATING \<Rightarrow> ''Le philosophe %d est en train de manger : %d secondes.''
        | _ \<Rightarrow> ''Le philosophe %d est en train de %s %d secondes.'')
       [id_philosopher philosopher, stateTimer philosopher])) w"

section \<open>SharedResources.c\<close>

text \<open>
  \<^verbatim>\<open>shmget\<close> hands out a segment filled with zero bytes: every slot of both tables has
  identifier 0, state \<^verbatim>\<open>THINKING\<close> (the first enumerator) and \<^verbatim>\<open>NULL\<close> references.
\<close>

definition zero_Philosopher :: Philosopher where
  "zero_Philosopher = \<lparr>id_philosopher = 0, state = THINKING, stateTimer = 0\<rparr>"

definition zero_ServerPhilosopher :: ServerPhilosopher where
  "zero_ServerPhilosopher =
     \<lparr>base = zero_Philosopher, leftChopstick = None, rightChopstick = None\<rparr>"

definition zero_Chopstick :: Chopstick where
  "zero_Chopstick = \<lparr>id_chopstick = 0, usage = 0\<rparr>"

definition shmget :: world where
  "shmget =
     \<lparr>maxAllowedEating = 0, philosopherCreationProcess = 0,
      philosophers = replicate MAX_PHILOSOPHERS zero_ServerPhilosopher,
      numberPhilosophers = 0,
      chopsticks = replicate MAX_PHILOSOPHERS zero_Chopstick,
      numberChopsticks = 0, logsQueueId = 0, trace = []\<rparr>"

definition attachSharedResources :: "world \<Rightarrow> world" where
  "attachSharedResources w =
     (let w = sem_init MaxAllowedEating 0 w;
          w = sem_init PhilosopherCreationProcess 1 w
      in w\<lparr>numberPhilosophers := 0, numberChopsticks := 0, logsQueueId := 0\<rparr>)"

section \<open>Chopstick.c\<close>

text \<open>
  \<^verbatim>\<open>createChopstick\<close> builds the chopstick on the stack (\<^verbatim>\<open>memset\<close>, identifier,
  \<^verbatim>\<open>sem_init(&chopstick.usage, 1, 1)\<close>), copies it to slot \<^verbatim>\<open>id - 1\<close>, logs, and returns the
  address of the slot. Nothing else of the segment is written.
\<close>

definition createChopstick :: "int \<Rightarrow> world \<Rightarrow> nat outcome" where
  "createChopstick ident w =
     (if 1 \<le> ident \<and> ident \<le> int MAX_PHILOSOPHERS then
        let k = nat (ident - 1);
            chopstick = \<lparr>id_chopstick = ident, usage = 1\<rparr>;
            w = emit (SemInit (Usage k) 1) (w\<lparr>chopsticks := (chopsticks w)[k := chopstick]\<rparr>);
            w = logServerState ''Baguette %d creee (adresse %p)...'' [ident, int k] w
        in Returns k w
      else Faults w)"

section \<open>ServerPhilosopher.c\<close>

function getPhilosopherFromId_from :: "nat \<Rightarrow> int \<Rightarrow> ServerPhilosopher list \<Rightarrow> nat option" where
  "getPhilosopherFromId_from i ident ps =
     (if i < MAX_PHILOSOPHERS then
        (if id_philosopher (base (ps ! i)) = ident then Some i
         else getPhilosopherFromId_from (Suc i) ident ps)
      else None)"
  by pat_completeness auto
termination
  by (relation "measure (\<lambda>(i, ident, ps). MAX_PHILOSOPHERS - i)") auto

declare getPhilosopherFromId_from.simps [simp del]

definition getPhilosopherFromId :: "int \<Rightarrow> ServerPhilosopher list \<Rightarrow> nat option" where
  "getPhilosopherFromId ident ps = getPhilosopherFromId_from 0 ident ps"

text \<open>
  \<^verbatim>\<open>definePhilosopherRightChopstick\<close> works on the caller's local philosopher (returned here)
  and on the segment. The second log line reads \<^verbatim>\<open>philosopher->leftChopstick->id\<close> and
  \<^verbatim>\<open>philosophers[lastPhilosopherId - 1]\<close>.
\<close>

definition setRightChopstick :: "nat \<Rightarrow> nat option \<Rightarrow> world \<Rightarrow> world" where
  "setRightChopstick i c w =
     w\<lparr>philosophers := (philosophers w)[i := (philosophers w ! i)\<lparr>rightChopstick := c\<rparr>]\<rparr>"

definition definePhilosopherRightChopstick ::
  "ServerPhilosopher \<Rightarrow> world \<Rightarrow> ServerPhilosopher outcome" where
  "definePhilosopherRightChopstick philosopher w =
     (let lastPhilosopherId = numberPhilosophers w;
          firstChopstick = (0::nat);
          w = logServerState ''Assignation de la baguette 1 (adresse %p) a droite du philosophe %d...''
                [int firstChopstick, id_philosopher (base philosopher)] w;
          philosopher' = philosopher\<lparr>rightChopstick := Some firstChopstick\<rparr>
      in case leftChopstick philosopher of
           None \<Rightarrow> Faults w
         | Some l \<Rightarrow>
             if lastPhilosopherId = 0 then Faults w
             else
               let w = logServerState
                         ''Assignation de la baguette %d (adresse %p) a droite de l avant denier philosophe %d...''
                         [id_chopstick (chopsticks w ! l), int l,
                          id_philosopher (base (philosophers w ! (lastPhilosopherId - 1)))] w
               in if id_philosopher (base philosopher) = 2 then
                    Returns philosopher' (setRightChopstick 0 (Some l) w)
                  else if id_philosopher (base philosopher) > 2 then
                    (case rightChopstick (philosophers w ! (lastPhilosopherId - 1)) of
                       None \<Rightarrow> Faults w
                     | Some previousPhlosopherOldRightChopstick \<Rightarrow>
                         andThen (sem_wait (Usage previousPhlosopherOldRightChopstick) w)
                           (\<lambda>_ w. Returns philosopher'
                              (sem_post (Usage previousPhlosopherOldRightChopstick)
                                 (setRightChopstick (lastPhilosopherId - 1) (Some l) w))))
                  else Returns philosopher' w)"

text \<open>
  \<^verbatim>\<open>createPhilosopher\<close>. The store to \<^verbatim>\<open>philosophers[lastPhilosopherId]\<close> is in bounds whenever
  \<^verbatim>\<open>createChopstick\<close> has returned, which faults first at capacity.
\<close>

definition createPhilosopher :: "world \<Rightarrow> ServerPhilosopher outcome" where
  "createPhilosopher w =
     andThen (sem_wait PhilosopherCreationProcess w) (\<lambda>_ w.
       let lastPhilosopherId = numberPhilosophers w;
           philosopher = zero_ServerPhilosopher
             \<lparr>base := zero_Philosopher\<lparr>id_philosopher := int lastPhilosopherId + 1\<rparr>\<rparr>;
           w = logServerState ''Creation du philosophe %d...'' [id_philosopher (base philosopher)] w
       in andThen (createChopstick (id_philosopher (base philosopher)) w) (\<lambda>c w.
            andThen
              (if lastPhilosopherId > 0
               then definePhilosopherRightChopstick (philosopher\<lparr>leftChopstick := Some c\<rparr>) w
               else Returns (philosopher\<lparr>leftChopstick := Some c\<rparr>) w)
              (\<lambda>philosopher w.
                 let w = w\<lparr>philosophers := (philosophers w)[lastPhilosopherId := philosopher],
                           numberPhilosophers := numberPhilosophers w + 1\<rparr>;
                     w = (if numberPhilosophers w mod 2 = 0 then sem_post MaxAllowedEating w else w)
                 in Returns philosopher (sem_post PhilosopherCreationProcess w))))"

text \<open>
  The probe-then-wait idiom of the hungry branch: \<^verbatim>\<open>sem_trywait\<close>; on \<^verbatim>\<open>EAGAIN\<close> the two
  waiting messages are logged and \<^verbatim>\<open>sem_wait\<close> is called.
\<close>

definition acquire :: "sem \<Rightarrow> (world \<Rightarrow> world) \<Rightarrow> world \<Rightarrow> unit outcome" where
  "acquire s logWaiting w =
     (case sem_trywait s w of
        (True, w) \<Rightarrow> Returns () w
      | (False, w) \<Rightarrow> sem_wait s (logWaiting w))"

definition setBase :: "nat \<Rightarrow> Philosopher \<Rightarrow> world \<Rightarrow> world" where
  "setBase i b w = w\<lparr>philosophers := (philosophers w)[i := (philosophers w ! i)\<lparr>base := b\<rparr>]\<rparr>"

text \<open>The release performed when a stored \<^verbatim>\<open>EATING\<close> meets an incoming \<^verbatim>\<open>THINKING\<close>.\<close>

definition release :: "Philosopher \<Rightarrow> nat \<Rightarrow> world \<Rightarrow> unit outcome" where
  "release philosopher i w =
     (case leftChopstick (philosophers w ! i) of
        None \<Rightarrow> Faults w
      | Some l \<Rightarrow>
          (let w = sem_post (Usage l) w;
               w = logClientInfo ''Baguette gauche liberee'' w;
               w = logServerState ''Le philosophe %d libere la baguette %d a sa gauche''
                     [id_philosopher philosopher, id_chopstick (chopsticks w ! l)] w
           in (case rightChopstick (philosophers w ! i) of
                 None \<Rightarrow> Faults w
               | Some r \<Rightarrow>
                   (let w = sem_post (Usage r) w;
                        w = logClientInfo ''Baguette droite liberee'' w;
                        w = logServerState ''Le philosophe %d libere la baguette %d a sa droite''
                              [id_philosopher philosopher, id_chopstick (chopsticks w ! r)] w;
                        w = sem_post MaxAllowedEating w;
                        w = logClientInfo ''Compteur libere'' w;
                        w = logServerState ''Le philosophe %d libere le compteur''
                              [id_philosopher philosopher] w
                    in Returns () w))))"

text \<open>
  The hungry branch after the stored record has been overwritten, written from its end to
  its beginning, one definition for each point at which the call may have to wait:
  \<open>grant\<close> is what follows the acquisition of the right chopstick, \<open>takeRight\<close> acquires it,
  \<open>afterLeft\<close> is what follows the acquisition of the left chopstick, \<open>takeLeft\<close> acquires it,
  \<open>afterGate\<close> is what follows the acquisition of the counter, and \<open>negotiate\<close> is the whole.
  Every line reads \<^verbatim>\<open>serverPhilosopher->leftChopstick\<close> or \<^verbatim>\<open>->rightChopstick\<close> from the memory
  as it is when the line runs.
\<close>

definition grant :: "Philosopher \<Rightarrow> nat \<Rightarrow> world \<Rightarrow> nat option outcome" where
  "grant philosopher i w =
     (case rightChopstick (philosophers w ! i) of
        None \<Rightarrow> Faults w
      | Some r \<Rightarrow>
          (let w = logServerState ''Le philosophe %d prend la baguette %d a sa droite''
                     [id_philosopher philosopher, id_chopstick (chopsticks w ! r)] w;
               w = setBase i ((base (philosophers w ! i))\<lparr>state := EATING, stateTimer := 0\<rparr>) w
           in Returns (Some i) w))"

definition takeRight :: "Philosopher \<Rightarrow> nat \<Rightarrow> world \<Rightarrow> nat option outcome" where
  "takeRight philosopher i w =
     (case rightChopstick (philosophers w ! i) of
        None \<Rightarrow> Faults w
      | Some r \<Rightarrow>
          andThen
            (acquire (Usage r)
               (\<lambda>w. logClientInfo ''En attente de la baguette droite...''
                      (logServerState
                         ''Le philosophe %d attend que la baguette %d a sa droite se libere''
                         [id_philosopher philosopher, id_chopstick (chopsticks w ! r)] w)) w)
            (\<lambda>_. grant philosopher i))"

definition afterLeft :: "Philosopher \<Rightarrow> nat \<Rightarrow> world \<Rightarrow> nat option outcome" where
  "afterLeft philosopher i w =
     (case leftChopstick (philosophers w ! i) of
        None \<Rightarrow> Faults w
      | Some l \<Rightarrow>
          takeRight philosopher i
            (logServerState ''Le philosophe %d prend la baguette %d a sa gauche''
               [id_philosopher philosopher, id_chopstick (chopsticks w ! l)] w))"

definition takeLeft :: "Philosopher \<Rightarrow> nat \<Rightarrow> world \<Rightarrow> nat option outcome" where
  "takeLeft philosopher i w =
     (case leftChopstick (philosophers w ! i) of
        None \<Rightarrow> Faults w
      | Some l \<Rightarrow>
          andThen
            (acquire (Usage l)
               (\<lambda>w. logClientInfo ''En attente de la baguette gauche...''
                      (logServerState
                         ''Le philosophe %d attend que la baguette %d a sa gauche se libere''
                         [id_philosopher philosopher, id_chopstick (chopsticks w ! l)] w)) w)
            (\<lambda>_. afterLeft philosopher i))"

definition afterGate :: "Philosopher \<Rightarrow> nat \<Rightarrow> world \<Rightarrow> nat option outcome" where
  "afterGate philosopher i w =
     (let allowedEating = sem_getvalue MaxAllowedEating w
      in takeLeft philosopher i
           (logServerState ''Le philosophe %d s ajoute au compteur (dispo restante : %d)''
              [id_philosopher philosopher, int allowedEating] w))"

definition negotiate :: "Philosopher \<Rightarrow> nat \<Rightarrow> world \<Rightarrow> nat option outcome" where
  "negotiate philosopher i w =
     andThen
       (acquire MaxAllowedEating
          (\<lambda>w. logClientInfo ''En attente de pouvoir manger... ''
                 (logServerState ''Le philosophe %d attend que le compteur se libere''
                    [id_philosopher philosopher] w)) w)
       (\<lambda>_. afterGate philosopher i)"

definition updatePhilosopher :: "Philosopher \<Rightarrow> world \<Rightarrow> nat option outcome" where
  "updatePhilosopher philosopher w =
     (case getPhilosopherFromId (id_philosopher philosopher) (philosophers w) of
        None \<Rightarrow>
          Returns None
            (logClientInfo
               ''Erreur, le philosophe a mettre a jour est introuvable dans la memoire partagee.'' w)
      | Some i \<Rightarrow>
          (case state philosopher of
             THINKING \<Rightarrow>
               andThen
                 (if state (base (philosophers w ! i)) = EATING
                  then release philosopher i w else Returns () w)
                 (\<lambda>_ w. Returns None (logClientAction philosopher (setBase i philosopher w)))
           | EATING \<Rightarrow> Returns None (logClientAction philosopher (setBase i philosopher w))
           | HUNGRY \<Rightarrow> negotiate philosopher i (setBase i philosopher w)
           | INVALID \<Rightarrow> Returns None w))"

section \<open>Runs\<close>

text \<open>
  A run performs a list of requests one after the other, as \<^verbatim>\<open>clientProcess\<close> dispatches them;
  a call that waits or faults is the outcome of the run. Each \<open>Returns\<close> of a run is a point at
  which no call is in flight.
\<close>

datatype request = REQUEST_CREATE | REQUEST_UPDATE Philosopher

fun serve :: "request \<Rightarrow> world \<Rightarrow> unit outcome" where
  "serve REQUEST_CREATE w = andThen (createPhilosopher w) (\<lambda>_ w. Returns () w)"
| "serve (REQUEST_UPDATE philosopher) w =
     andThen (updatePhilosopher philosopher w) (\<lambda>_ w. Returns () w)"

fun run :: "request list \<Rightarrow> world \<Rightarrow> unit outcome" where
  "run [] w = Returns () w"
| "run (r # rs) w = andThen (serve r w) (\<lambda>_ w. run rs w)"

definition start :: world where
  "start = attachSharedResources shmget"

section \<open>Observations on the world\<close>

text \<open>The record that \<^verbatim>\<open>updatePhilosopher\<close> sends when the identity is not in the table.\<close>

definition unknownIdentityRecord :: event where
  "unknownIdentityRecord =
     MsgSnd (Log CLIENT_PID
       ''Erreur, le philosophe a mettre a jour est introuvable dans la memoire partagee.'' [])"

section \<open>The shape of the tables\<close>

text \<open>
  With \<open>n\<close> philosophers joined, the right chopstick of the philosopher in slot \<open>i\<close> is the
  chopstick in slot \<open>i + 1\<close>, wrapping to slot 0 for the last one; a lone philosopher has none.
\<close>

definition ring :: "nat \<Rightarrow> nat \<Rightarrow> nat option" where
  "ring n i = (if n < 2 then None else Some (Suc i mod n))"

text \<open>
  \<open>tables\<close>: slot \<open>i\<close> of either table is in use exactly when \<open>i\<close> is below
  \<^verbatim>\<open>numberPhilosophers\<close>; a philosopher slot in use has identifier \<open>i + 1\<close>, the chopstick of
  slot \<open>i\<close> on its left and the ring's successor on its right; a chopstick slot in use has
  identifier \<open>i + 1\<close>; a slot not in use has identifier 0, and \<^verbatim>\<open>NULL\<close> references or the
  zero chopstick. The creation lock is free and \<^verbatim>\<open>numberChopsticks\<close> is 0.
\<close>

definition tables :: "world \<Rightarrow> bool" where
  "tables w \<longleftrightarrow>
     length (philosophers w) = MAX_PHILOSOPHERS \<and>
     length (chopsticks w) = MAX_PHILOSOPHERS \<and>
     numberPhilosophers w \<le> MAX_PHILOSOPHERS \<and>
     philosopherCreationProcess w = 1 \<and>
     numberChopsticks w = 0 \<and>
     (\<forall>i<MAX_PHILOSOPHERS.
        if i < numberPhilosophers w
        then id_philosopher (base (philosophers w ! i)) = int i + 1 \<and>
             leftChopstick (philosophers w ! i) = Some i \<and>
             rightChopstick (philosophers w ! i) = ring (numberPhilosophers w) i \<and>
             id_chopstick (chopsticks w ! i) = int i + 1
        else id_philosopher (base (philosophers w ! i)) = 0 \<and>
             leftChopstick (philosophers w ! i) = None \<and>
             rightChopstick (philosophers w ! i) = None \<and>
             chopsticks w ! i = zero_Chopstick)"

text \<open>The philosopher that \<^verbatim>\<open>createPhilosopher\<close> stores in slot \<open>n\<close> and returns.\<close>

definition joined :: "nat \<Rightarrow> ServerPhilosopher" where
  "joined n =
     \<lparr>base = \<lparr>id_philosopher = int n + 1, state = THINKING, stateTimer = 0\<rparr>,
      leftChopstick = Some n,
      rightChopstick = (if n = 0 then None else Some 0)\<rparr>"

section \<open>Reading the trace\<close>

text \<open>The semaphore calls among the events, in the order they were made.\<close>

fun is_sem_call :: "event \<Rightarrow> bool" where
  "is_sem_call (MsgSnd l) = False"
| "is_sem_call e = True"

definition sem_calls :: "event list \<Rightarrow> event list" where
  "sem_calls es = filter is_sem_call es"

text \<open>The events that a call added: what the trace holds beyond the trace it started from.\<close>

definition since :: "world \<Rightarrow> world \<Rightarrow> event list" where
  "since w w' = drop (length (trace w)) (trace w')"

text \<open>The world of an outcome, whichever way the call ended.\<close>

fun world_of :: "'a outcome \<Rightarrow> world" where
  "world_of (Returns x w) = w"
| "world_of (Waits s k w) = w"
| "world_of (Faults w) = w"

section \<open>The ring as a graph\<close>

text \<open>
  The successor of a chopstick is the right chopstick of the joined philosopher whose left
  chopstick it is (the first such philosopher of the table); \<open>walk w k c\<close> lists up to \<open>k\<close>
  chopsticks met from \<open>c\<close> on by following successors.
\<close>

definition successor :: "world \<Rightarrow> nat \<Rightarrow> nat option" where
  "successor w c =
     (case find (\<lambda>p. leftChopstick p = Some c) (take (numberPhilosophers w) (philosophers w)) of
        None \<Rightarrow> None
      | Some p \<Rightarrow> rightChopstick p)"

fun walk :: "world \<Rightarrow> nat \<Rightarrow> nat \<Rightarrow> nat list" where
  "walk w 0 c = []"
| "walk w (Suc k) c = c # (case successor w c of None \<Rightarrow> [] | Some c' \<Rightarrow> walk w k c')"

text \<open>The left chopsticks of the joined philosophers.\<close>

definition leftChopsticks :: "world \<Rightarrow> nat set" where
  "leftChopsticks w =
     {c. \<exists>i<numberPhilosophers w. leftChopstick (philosophers w ! i) = Some c}"

text \<open>The number of join requests in a list of requests.\<close>

definition joins :: "request list \<Rightarrow> nat" where
  "joins rs = length (filter (\<lambda>r. r = REQUEST_CREATE) rs)"

section \<open>Who is eating, who holds what\<close>

definition eating_at :: "world \<Rightarrow> nat \<Rightarrow> bool" where
  "eating_at w i \<longleftrightarrow> state (base (philosophers w ! i)) = EATING"

text \<open>The number of joined philosophers whose stored state is \<^verbatim>\<open>EATING\<close>.\<close>

definition eating :: "world \<Rightarrow> nat" where
  "eating w = length (filter (eating_at w) [0..<numberPhilosophers w])"

text \<open>
  A joined philosopher holds a chopstick when its stored state is \<^verbatim>\<open>EATING\<close> and the
  chopstick is its left or its right one.
\<close>

definition holds :: "world \<Rightarrow> nat \<Rightarrow> nat \<Rightarrow> bool" where
  "holds w c i \<longleftrightarrow>
     eating_at w i \<and>
     (leftChopstick (philosophers w ! i) = Some c \<or> rightChopstick (philosophers w ! i) = Some c)"

definition holders :: "world \<Rightarrow> nat \<Rightarrow> nat" where
  "holders w c = length (filter (holds w c) [0..<numberPhilosophers w])"

text \<open>
  \<open>dining\<close>: the tables have their shape, the permits of the counter and the eating
  philosophers add up to half the philosophers, and every chopstick in use is either free
  (counter 1) or held by exactly one philosopher (counter 0).
\<close>

definition dining :: "world \<Rightarrow> bool" where
  "dining w \<longleftrightarrow>
     tables w \<and>
     maxAllowedEating w + eating w = numberPhilosophers w div 2 \<and>
     (\<forall>c<numberPhilosophers w. usage (chopsticks w ! c) + holders w c = 1)"

text \<open>
  The client's protocol for \<^verbatim>\<open>EATING\<close>: \<^verbatim>\<open>philosopherThread\<close> sends it only after the server has
  granted it, that is, for a philosopher already stored as \<^verbatim>\<open>EATING\<close>. A request is
  \<open>acknowledged\<close> in a world when it is not an \<^verbatim>\<open>EATING\<close> update of a philosopher stored in
  another state; a list of requests is \<open>acknowledging\<close> from a world when each request is
  acknowledged in the world in which it is served.
\<close>

fun acknowledged :: "request \<Rightarrow> world \<Rightarrow> bool" where
  "acknowledged REQUEST_CREATE w = True"
| "acknowledged (REQUEST_UPDATE philosopher) w =
     (state philosopher = EATING \<longrightarrow>
        (case getPhilosopherFromId (id_philosopher philosopher) (philosophers w) of
           None \<Rightarrow> True
         | Some i \<Rightarrow> state (base (philosophers w ! i)) = EATING))"

fun acknowledging :: "request list \<Rightarrow> world \<Rightarrow> bool" where
  "acknowledging [] w = True"
| "acknowledging (r # rs) w =
     (acknowledged r w \<and>
      (case serve r w of Returns _ w' \<Rightarrow> acknowledging rs w' | _ \<Rightarrow> True))"

section \<open>The protocol of a hungry call\<close>

text \<open>
  An event takes a permit of a semaphore when it is a \<^verbatim>\<open>sem_wait\<close> on it that has returned or
  a \<^verbatim>\<open>sem_trywait\<close> on it that has succeeded; \<open>permits\<close> counts them.
\<close>

fun takes :: "sem \<Rightarrow> event \<Rightarrow> bool" where
  "takes s (SemWait s') = (s' = s)"
| "takes s (SemTryWait s' b) = (b \<and> s' = s)"
| "takes s e = False"

definition permits :: "event list \<Rightarrow> sem \<Rightarrow> nat" where
  "permits es s = length (filter (takes s) es)"

text \<open>
  \<open>refs i l r v\<close>: in the memory \<open>v\<close> the philosopher of slot \<open>i\<close> has the chopstick slots \<open>l\<close> and
  \<open>r\<close>, two different ones, on its left and on its right.
\<close>

definition refs :: "nat \<Rightarrow> nat \<Rightarrow> nat \<Rightarrow> world \<Rightarrow> bool" where
  "refs i l r v \<longleftrightarrow>
     i < length (philosophers v) \<and>
     leftChopstick (philosophers v ! i) = Some l \<and>
     rightChopstick (philosophers v ! i) = Some r \<and>
     l \<noteq> r \<and> l < length (chopsticks v) \<and> r < length (chopsticks v)"

text \<open>
  \<open>paid v calls v'\<close>: from \<open>v\<close> to \<open>v'\<close> the trace has grown, the semaphore calls added are
  \<open>calls\<close>, and every semaphore of the memory has gone down by exactly the permits that
  \<open>calls\<close> takes of it.
\<close>

definition paid :: "world \<Rightarrow> event list \<Rightarrow> world \<Rightarrow> bool" where
  "paid v calls v' \<longleftrightarrow>
     trace v @ since v v' = trace v' \<and>
     sem_calls (since v v') = calls \<and>
     (\<forall>s. sem_getvalue s v' + permits calls s = sem_getvalue s v)"

text \<open>
  \<open>granted i b v calls out\<close>: run from the memory \<open>v\<close>, the call has returned slot \<open>i\<close> after the
  semaphore calls \<open>calls\<close>, paid for, and the stored record is \<open>b\<close> with the state \<^verbatim>\<open>EATING\<close>
  and the timer 0.
\<close>

definition granted ::
  "nat \<Rightarrow> Philosopher \<Rightarrow> world \<Rightarrow> event list \<Rightarrow> nat option outcome \<Rightarrow> bool" where
  "granted i b v calls out \<longleftrightarrow>
     (\<exists>v'. out = Returns (Some i) v' \<and>
           base (philosophers v' ! i) = b\<lparr>state := EATING, stateTimer := 0\<rparr> \<and>
           paid v calls v')"





section \<open>What each primitive writes\<close>

lemma emit_fields [simp]:
  "maxAllowedEating (emit e w) = maxAllowedEating w"
  "philosopherCreationProcess (emit e w) = philosopherCreationProcess w"
  "philosophers (emit e w) = philosophers w"
  "numberPhilosophers (emit e w) = numberPhilosophers w"
  "chopsticks (emit e w) = chopsticks w"
  "numberChopsticks (emit e w) = numberChopsticks w"
  "logsQueueId (emit e w) = logsQueueId w"
  "trace (emit e w) = trace w @ [e]"
  by (simp_all add: emit_def)

lemma logServerState_fields [simp]:
  "maxAllowedEating (logServerState format args w) = maxAllowedEating w"
  "philosopherCreationProcess (logServerState format args w) = philosopherCreationProcess w"
  "philosophers (logServerState format args w) = philosophers w"
  "numberPhilosophers (logServerState format args w) = numberPhilosophers w"
  "chopsticks (logServerState format args w) = chopsticks w"
  "numberChopsticks (logServerState format args w) = numberChopsticks w"
  "logsQueueId (logServerState format args w) = logsQueueId w"
  "trace (logServerState format args w) = trace w @ [MsgSnd (Log SERVER_LOG_TYPE format args)]"
  by (simp_all add: logServerState_def)

lemma logClientInfo_fields [simp]:
  "maxAllowedEating (logClientInfo message w) = maxAllowedEating w"
  "philosopherCreationProcess (logClientInfo message w) = philosopherCreationProcess w"
  "philosophers (logClientInfo message w) = philosophers w"
  "numberPhilosophers (logClientInfo message w) = numberPhilosophers w"
  "chopsticks (logClientInfo message w) = chopsticks w"
  "numberChopsticks (logClientInfo message w) = numberChopsticks w"
  "logsQueueId (logClientInfo message w) = logsQueueId w"
  "trace (logClientInfo message w) = trace w @ [MsgSnd (Log CLIENT_PID message [])]"
  by (simp_all add: logClientInfo_def)

lemma setBase_fields [simp]:
  "maxAllowedEating (setBase i b w) = maxAllowedEating w"
  "philosopherCreationProcess (setBase i b w) = philosopherCreationProcess w"
  "philosophers (setBase i b w) = (philosophers w)[i := (philosophers w ! i)\<lparr>base := b\<rparr>]"
  "numberPhilosophers (setBase i b w) = numberPhilosophers w"
  "chopsticks (setBase i b w) = chopsticks w"
  "numberChopsticks (setBase i b w) = numberChopsticks w"
  "logsQueueId (setBase i b w) = logsQueueId w"
  "trace (setBase i b w) = trace w"
  by (simp_all add: setBase_def)

lemma setRightChopstick_fields [simp]:
  "maxAllowedEating (setRightChopstick i c w) = maxAllowedEating w"
  "philosopherCreationProcess (setRightChopstick i c w) = philosopherCreationProcess w"
  "philosophers (setRightChopstick i c w) = (philosophers w)[i := (philosophers w ! i)\<lparr>rightChopstick := c\<rparr>]"
  "numberPhilosophers (setRightChopstick i c w) = numberPhilosophers w"
  "chopsticks (setRightChopstick i c w) = chopsticks w"
  "numberChopsticks (setRightChopstick i c w) = numberChopsticks w"
  "logsQueueId (setRightChopstick i c w) = logsQueueId w"
  "trace (setRightChopstick i c w) = trace w"
  by (simp_all add: setRightChopstick_def)

lemma sem_post_gate_fields [simp]:
  "maxAllowedEating (sem_post MaxAllowedEating w) = maxAllowedEating w + 1"
  "philosopherCreationProcess (sem_post MaxAllowedEating w) = philosopherCreationProcess w"
  "philosophers (sem_post MaxAllowedEating w) = philosophers w"
  "numberPhilosophers (sem_post MaxAllowedEating w) = numberPhilosophers w"
  "chopsticks (sem_post MaxAllowedEating w) = chopsticks w"
  "numberChopsticks (sem_post MaxAllowedEating w) = numberChopsticks w"
  "logsQueueId (sem_post MaxAllowedEating w) = logsQueueId w"
  "trace (sem_post MaxAllowedEating w) = trace w @ [SemPost MaxAllowedEating]"
  by (simp_all add: sem_post_def)

lemma sem_post_creation_fields [simp]:
  "maxAllowedEating (sem_post PhilosopherCreationProcess w) = maxAllowedEating w"
  "philosopherCreationProcess (sem_post PhilosopherCreationProcess w) = philosopherCreationProcess w + 1"
  "philosophers (sem_post PhilosopherCreationProcess w) = philosophers w"
  "numberPhilosophers (sem_post PhilosopherCreationProcess w) = numberPhilosophers w"
  "chopsticks (sem_post PhilosopherCreationProcess w) = chopsticks w"
  "numberChopsticks (sem_post PhilosopherCreationProcess w) = numberChopsticks w"
  "logsQueueId (sem_post PhilosopherCreationProcess w) = logsQueueId w"
  "trace (sem_post PhilosopherCreationProcess w) = trace w @ [SemPost PhilosopherCreationProcess]"
  by (simp_all add: sem_post_def)

lemma sem_post_usage_fields [simp]:
  "maxAllowedEating (sem_post (Usage k) w) = maxAllowedEating w"
  "philosopherCreationProcess (sem_post (Usage k) w) = philosopherCreationProcess w"
  "philosophers (sem_post (Usage k) w) = philosophers w"
  "numberPhilosophers (sem_post (Usage k) w) = numberPhilosophers w"
  "chopsticks (sem_post (Usage k) w) = (chopsticks w)[k := (chopsticks w ! k)\<lparr>usage := usage (chopsticks w ! k) + 1\<rparr>]"
  "numberChopsticks (sem_post (Usage k) w) = numberChopsticks w"
  "logsQueueId (sem_post (Usage k) w) = logsQueueId w"
  "trace (sem_post (Usage k) w) = trace w @ [SemPost (Usage k)]"
  by (simp_all add: sem_post_def)

lemma logClientAction_fields [simp]:
  "maxAllowedEating (logClientAction b w) = maxAllowedEating w"
  "philosopherCreationProcess (logClientAction b w) = philosopherCreationProcess w"
  "philosophers (logClientAction b w) = philosophers w"
  "numberPhilosophers (logClientAction b w) = numberPhilosophers w"
  "chopsticks (logClientAction b w) = chopsticks w"
  "numberChopsticks (logClientAction b w) = numberChopsticks w"
  "logsQueueId (logClientAction b w) = logsQueueId w"
  by (simp_all add: logClientAction_def)

lemma logClientAction_trace:
  "\<exists>l. trace (logClientAction b w) = trace w @ [MsgSnd (Log CLIENT_PID l [id_philosopher b, stateTimer b])]"
  by (simp add: logClientAction_def)

lemma decrement_gate_fields [simp]:
  "maxAllowedEating (decrement MaxAllowedEating e w) = maxAllowedEating w - 1"
  "philosopherCreationProcess (decrement MaxAllowedEating e w) = philosopherCreationProcess w"
  "philosophers (decrement MaxAllowedEating e w) = philosophers w"
  "numberPhilosophers (decrement MaxAllowedEating e w) = numberPhilosophers w"
  "chopsticks (decrement MaxAllowedEating e w) = chopsticks w"
  "numberChopsticks (decrement MaxAllowedEating e w) = numberChopsticks w"
  "logsQueueId (decrement MaxAllowedEating e w) = logsQueueId w"
  "trace (decrement MaxAllowedEating e w) = trace w @ [e]"
  by (simp_all add: decrement_def)

lemma decrement_creation_fields [simp]:
  "maxAllowedEating (decrement PhilosopherCreationProcess e w) = maxAllowedEating w"
  "philosopherCreationProcess (decrement PhilosopherCreationProcess e w) = philosopherCreationProcess w - 1"
  "philosophers (decrement PhilosopherCreationProcess e w) = philosophers w"
  "numberPhilosophers (decrement PhilosopherCreationProcess e w) = numberPhilosophers w"
  "chopsticks (decrement PhilosopherCreationProcess e w) = chopsticks w"
  "numberChopsticks (decrement PhilosopherCreationProcess e w) = numberChopsticks w"
  "logsQueueId (decrement PhilosopherCreationProcess e w) = logsQueueId w"
  "trace (decrement PhilosopherCreationProcess e w) = trace w @ [e]"
  by (simp_all add: decrement_def)

lemma decrement_usage_fields [simp]:
  "maxAllowedEating (decrement (Usage k) e w) = maxAllowedEating w"
  "philosopherCreationProcess (decrement (Usage k) e w) = philosopherCreationProcess w"
  "philosophers (decrement (Usage k) e w) = philosophers w"
  "numberPhilosophers (decrement (Usage k) e w) = numberPhilosophers w"
  "chopsticks (decrement (Usage k) e w) = (chopsticks w)[k := (chopsticks w ! k)\<lparr>usage := usage (chopsticks w ! k) - 1\<rparr>]"
  "numberChopsticks (decrement (Usage k) e w) = numberChopsticks w"
  "logsQueueId (decrement (Usage k) e w) = logsQueueId w"
  "trace (decrement (Usage k) e w) = trace w @ [e]"
  by (simp_all add: decrement_def)

lemma sem_getvalue_log [simp]:
  "sem_getvalue s (emit e w) = sem_getvalue s w"
  "sem_getvalue s (logServerState format args w) = sem_getvalue s w"
  "sem_getvalue s (logClientInfo message w) = sem_getvalue s w"
  by (cases s; simp)+

lemma sem_wait_eq:
  "sem_wait s w =
     (if 0 < sem_getvalue s w then Returns () (decrement s (SemWait s) w)
      else Waits s (\<lambda>v. Returns () v) w)"
  by (simp add: sem_wait_def)

lemma acquire_eq:
  assumes "\<And>w. sem_getvalue s (logWaiting w) = sem_getvalue s w"
  shows "acquire s logWaiting w =
     (if 0 < sem_getvalue s w then Returns () (decrement s (SemTryWait s True) w)
      else Waits s (\<lambda>v. Returns () v) (logWaiting (emit (SemTryWait s False) w)))"
  by (simp add: acquire_def sem_trywait_def sem_wait_eq decrement_def assms)

section \<open>The table scan\<close>

lemma getPhilosopherFromId_from_None:
  "getPhilosopherFromId_from k ident ps = None \<longleftrightarrow>
     (\<forall>i. k \<le> i \<and> i < MAX_PHILOSOPHERS \<longrightarrow> id_philosopher (base (ps ! i)) \<noteq> ident)"
proof (induction k ident ps rule: getPhilosopherFromId_from.induct)
  case (1 i ident ps)
  show ?case
  proof (cases "i < MAX_PHILOSOPHERS")
    case False
    then show ?thesis
      by (simp add: getPhilosopherFromId_from.simps [of i])
  next
    case inside: True
    show ?thesis
    proof (cases "id_philosopher (base (ps ! i)) = ident")
      case True
      with inside show ?thesis
        by (auto simp: getPhilosopherFromId_from.simps [of i])
    next
      case False
      with inside 1 have "getPhilosopherFromId_from i ident ps = None \<longleftrightarrow>
          (\<forall>j. Suc i \<le> j \<and> j < MAX_PHILOSOPHERS \<longrightarrow> id_philosopher (base (ps ! j)) \<noteq> ident)"
        by (simp add: getPhilosopherFromId_from.simps [of i])
      also have "\<dots> \<longleftrightarrow>
          (\<forall>j. i \<le> j \<and> j < MAX_PHILOSOPHERS \<longrightarrow> id_philosopher (base (ps ! j)) \<noteq> ident)"
        using False by (metis Suc_leI le_neq_implies_less Suc_leD)
      finally show ?thesis .
    qed
  qed
qed

lemma getPhilosopherFromId_from_Some:
  "getPhilosopherFromId_from k ident ps = Some n \<longleftrightarrow>
     k \<le> n \<and> n < MAX_PHILOSOPHERS \<and> id_philosopher (base (ps ! n)) = ident \<and>
     (\<forall>j. k \<le> j \<and> j < n \<longrightarrow> id_philosopher (base (ps ! j)) \<noteq> ident)"
proof (induction k ident ps rule: getPhilosopherFromId_from.induct)
  case (1 i ident ps)
  show ?case
  proof (cases "i < MAX_PHILOSOPHERS")
    case False
    then show ?thesis
      by (auto simp: getPhilosopherFromId_from.simps [of i])
  next
    case inside: True
    show ?thesis
    proof (cases "id_philosopher (base (ps ! i)) = ident")
      case True
      with inside show ?thesis
        by (auto simp: getPhilosopherFromId_from.simps [of i] dest: le_neq_implies_less)
    next
      case False
      with inside 1 have "getPhilosopherFromId_from i ident ps = Some n \<longleftrightarrow>
          Suc i \<le> n \<and> n < MAX_PHILOSOPHERS \<and> id_philosopher (base (ps ! n)) = ident \<and>
          (\<forall>j. Suc i \<le> j \<and> j < n \<longrightarrow> id_philosopher (base (ps ! j)) \<noteq> ident)"
        by (simp add: getPhilosopherFromId_from.simps [of i])
      also have "\<dots> \<longleftrightarrow>
          i \<le> n \<and> n < MAX_PHILOSOPHERS \<and> id_philosopher (base (ps ! n)) = ident \<and>
          (\<forall>j. i \<le> j \<and> j < n \<longrightarrow> id_philosopher (base (ps ! j)) \<noteq> ident)"
        using False by (metis Suc_leI le_neq_implies_less Suc_leD)
      finally show ?thesis .
    qed
  qed
qed

lemma getPhilosopherFromId_None:
  "getPhilosopherFromId ident ps = None \<longleftrightarrow>
     (\<forall>i<MAX_PHILOSOPHERS. id_philosopher (base (ps ! i)) \<noteq> ident)"
  by (simp add: getPhilosopherFromId_def getPhilosopherFromId_from_None)

lemma getPhilosopherFromId_Some:
  "getPhilosopherFromId ident ps = Some n \<longleftrightarrow>
     n < MAX_PHILOSOPHERS \<and> id_philosopher (base (ps ! n)) = ident \<and>
     (\<forall>j<n. id_philosopher (base (ps ! j)) \<noteq> ident)"
  by (simp add: getPhilosopherFromId_def getPhilosopherFromId_from_Some)

section \<open>Unknown identity\<close>

text \<open>
  When no slot of the whole table, in use or not, stores the identity carried by the
  update, \<^verbatim>\<open>updatePhilosopher\<close> returns \<^verbatim>\<open>NULL\<close> and the world it leaves is the one it found with
  exactly one record appended to the log queue, the error message sent through
  \<^verbatim>\<open>logClientInfo\<close>.
\<close>

lemma updatePhilosopher_unstored_identity:
  assumes "\<forall>i<MAX_PHILOSOPHERS.
             id_philosopher (base (philosophers w ! i)) \<noteq> id_philosopher philosopher"
  shows "updatePhilosopher philosopher w =
           Returns None (w\<lparr>trace := trace w @ [unknownIdentityRecord]\<rparr>)"
proof -
  from assms have "getPhilosopherFromId (id_philosopher philosopher) (philosophers w) = None"
    by (simp add: getPhilosopherFromId_None)
  then show ?thesis
    by (simp add: updatePhilosopher_def logClientInfo_def emit_def unknownIdentityRecord_def)
qed

text \<open>
  Claim C4, evaluated after two joins on an update carrying identity 0. Neither joined
  philosopher has identity 0 (they have 1 and 2), so the identity is that of no participant.
  The scan of \<^verbatim>\<open>getPhilosopherFromId\<close> runs over all \<^verbatim>\<open>MAX_PHILOSOPHERS\<close> slots and stops at slot
  2, which is not in use and still zero-filled: the call returns \<^verbatim>\<open>NULL\<close> having sent one
  record, the action message of \<^verbatim>\<open>logClientAction\<close> and not the error message, and having
  written the incoming record into slot 2.
\<close>

theorem identity_zero_is_not_reported:
  "(case run [REQUEST_CREATE, REQUEST_CREATE] start of
      Returns _ w \<Rightarrow>
        numberPhilosophers w = 2 \<and>
        id_philosopher (base (philosophers w ! 0)) = 1 \<and>
        id_philosopher (base (philosophers w ! 1)) = 2 \<and>
        philosophers w ! 2 = zero_ServerPhilosopher \<and>
        getPhilosopherFromId 0 (philosophers w) = Some 2 \<and>
        (case updatePhilosopher \<lparr>id_philosopher = 0, state = THINKING, stateTimer = 4\<rparr> w of
           Returns res w' \<Rightarrow>
             res = None \<and>
             since w w' =
               [MsgSnd (Log CLIENT_PID
                  ''Le philosophe %d est en train de penser : %d secondes.'' [0, 4])] \<and>
             unknownIdentityRecord \<notin> set (since w w') \<and>
             base (philosophers w' ! 2) =
               \<lparr>id_philosopher = 0, state = THINKING, stateTimer = 4\<rparr>
         | _ \<Rightarrow> False)
    | _ \<Rightarrow> False)"
  by code_simp

section \<open>Creating a chopstick\<close>

lemma createChopstick_Returns:
  assumes "1 \<le> ident" "ident \<le> int MAX_PHILOSOPHERS"
  shows "\<exists>w'. createChopstick ident w = Returns (nat (ident - 1)) w' \<and>
           chopsticks w' = (chopsticks w)[nat (ident - 1) := \<lparr>id_chopstick = ident, usage = 1\<rparr>] \<and>
           philosophers w' = philosophers w \<and>
           numberPhilosophers w' = numberPhilosophers w \<and>
           numberChopsticks w' = numberChopsticks w \<and>
           maxAllowedEating w' = maxAllowedEating w \<and>
           philosopherCreationProcess w' = philosopherCreationProcess w \<and>
           trace w' = trace w @
             [SemInit (Usage (nat (ident - 1))) 1,
              MsgSnd (Log SERVER_LOG_TYPE ''Baguette %d creee (adresse %p)...''
                        [ident, int (nat (ident - 1))])]"
  using assms by (simp add: createChopstick_def Let_def)

text \<open>
  Claim C5, evaluated on the fresh store with identifier 1: the chopstick is built unlocked
  in slot 0 and a record is logged, but \<^verbatim>\<open>numberChopsticks\<close> is still 0 afterwards. No
  statement of \<^verbatim>\<open>createChopstick\<close>, nor of any other function, writes that counter after
  \<^verbatim>\<open>attachSharedResources\<close> has set it to 0.
\<close>

theorem createChopstick_leaves_numberChopsticks:
  "(case createChopstick 1 start of
      Returns k w \<Rightarrow>
        k = 0 \<and> chopsticks w ! 0 = \<lparr>id_chopstick = 1, usage = 1\<rparr> \<and>
        last (trace w) = MsgSnd (Log SERVER_LOG_TYPE ''Baguette %d creee (adresse %p)...'' [1, 0]) \<and>
        numberChopsticks start = 0 \<and> numberChopsticks w = 0
    | _ \<Rightarrow> False)"
  by code_simp

section \<open>Two joins\<close>

text \<open>
  Claim C7, as the code has it. After two \<^verbatim>\<open>createPhilosopher\<close> calls on the fresh store,
  philosopher 1's right chopstick and philosopher 2's left chopstick are the same slot, and
  the chopstick in it has identifier 2 (it is the one created for philosopher 2);
  philosopher 2's right chopstick is philosopher 1's left chopstick, the chopstick with
  identifier 1.
\<close>

theorem two_joins_share_both_chopsticks:
  "(case run [REQUEST_CREATE, REQUEST_CREATE] start of
      Returns _ w \<Rightarrow>
        rightChopstick (philosophers w ! 0) = leftChopstick (philosophers w ! 1) \<and>
        rightChopstick (philosophers w ! 0) = Some 1 \<and>
        id_chopstick (chopsticks w ! 1) = 2 \<and>
        rightChopstick (philosophers w ! 1) = leftChopstick (philosophers w ! 0) \<and>
        leftChopstick (philosophers w ! 0) = Some 0 \<and>
        id_chopstick (chopsticks w ! 0) = 1
    | _ \<Rightarrow> False)"
  by code_simp

text \<open>
  The claim as the specification words it, with identifier 1 for the chopstick shared
  between philosopher 1's right and philosopher 2's left, does not hold.
\<close>

theorem two_joins_shared_chopstick_id_counterexample:
  "(case run [REQUEST_CREATE, REQUEST_CREATE] start of
      Returns _ w \<Rightarrow>
        rightChopstick (philosophers w ! 0) = leftChopstick (philosophers w ! 1) \<and>
        (case rightChopstick (philosophers w ! 0) of
           Some c \<Rightarrow> id_chopstick (chopsticks w ! c) \<noteq> 1
         | None \<Rightarrow> False)
    | _ \<Rightarrow> False)"
  by code_simp

section \<open>What a join writes\<close>

lemma wait_then_post:
  assumes "k < length cs" "0 < usage (cs ! k)"
  shows "(cs[k := (cs ! k)\<lparr>usage := usage (cs ! k) - 1\<rparr>])
           [k := (cs[k := (cs ! k)\<lparr>usage := usage (cs ! k) - 1\<rparr>] ! k)
                   \<lparr>usage := usage (cs[k := (cs ! k)\<lparr>usage := usage (cs ! k) - 1\<rparr>] ! k) + 1\<rparr>] = cs"
  using assms by (simp add: list_update_same_conv)

lemma tables_slot:
  assumes "tables w" "i < numberPhilosophers w"
  shows "id_philosopher (base (philosophers w ! i)) = int i + 1"
    and "leftChopstick (philosophers w ! i) = Some i"
    and "rightChopstick (philosophers w ! i) = ring (numberPhilosophers w) i"
    and "id_chopstick (chopsticks w ! i) = int i + 1"
    and "i < MAX_PHILOSOPHERS"
  using assms unfolding tables_def by (force, force, force, force, simp)

lemma tables_free_slot:
  assumes "tables w" "numberPhilosophers w \<le> i" "i < MAX_PHILOSOPHERS"
  shows "id_philosopher (base (philosophers w ! i)) = 0"
    and "leftChopstick (philosophers w ! i) = None"
    and "rightChopstick (philosophers w ! i) = None"
    and "chopsticks w ! i = zero_Chopstick"
  using assms unfolding tables_def by (force, force, force, force)

lemma tables_sizes:
  assumes "tables w"
  shows "length (philosophers w) = MAX_PHILOSOPHERS"
    and "length (chopsticks w) = MAX_PHILOSOPHERS"
    and "numberPhilosophers w \<le> MAX_PHILOSOPHERS"
    and "philosopherCreationProcess w = 1"
    and "numberChopsticks w = 0"
  using assms unfolding tables_def by simp_all

lemma createPhilosopher_full:
  assumes "tables w" "numberPhilosophers w = MAX_PHILOSOPHERS"
  shows "\<exists>w'. createPhilosopher w = Faults w'"
  using assms tables_sizes [OF assms(1)]
  by (simp add: createPhilosopher_def sem_wait_eq createChopstick_def Let_def
      zero_ServerPhilosopher_def zero_Philosopher_def)

lemma createPhilosopher_first:
  assumes "tables w" "numberPhilosophers w = 0"
  shows "\<exists>w'. createPhilosopher w = Returns (joined 0) w' \<and>
           numberPhilosophers w' = 1 \<and>
           philosophers w' = (philosophers w)[0 := joined 0] \<and>
           chopsticks w' = (chopsticks w)[0 := \<lparr>id_chopstick = 1, usage = 1\<rparr>] \<and>
           maxAllowedEating w' = maxAllowedEating w \<and>
           philosopherCreationProcess w' = 1 \<and>
           numberChopsticks w' = numberChopsticks w"
  using assms tables_sizes [OF assms(1)]
  by (simp add: createPhilosopher_def sem_wait_eq createChopstick_def Let_def
      zero_ServerPhilosopher_def zero_Philosopher_def joined_def MAX_PHILOSOPHERS_def)

lemma createPhilosopher_second:
  assumes "tables w" "numberPhilosophers w = 1"
  shows "\<exists>w'. createPhilosopher w = Returns (joined 1) w' \<and>
           numberPhilosophers w' = 2 \<and>
           philosophers w' =
             (philosophers w)[0 := (philosophers w ! 0)\<lparr>rightChopstick := Some 1\<rparr>, 1 := joined 1] \<and>
           chopsticks w' = (chopsticks w)[1 := \<lparr>id_chopstick = 2, usage = 1\<rparr>] \<and>
           maxAllowedEating w' = maxAllowedEating w + 1 \<and>
           philosopherCreationProcess w' = 1 \<and>
           numberChopsticks w' = numberChopsticks w"
  using assms tables_sizes [OF assms(1)]
  by (simp add: createPhilosopher_def sem_wait_eq createChopstick_def Let_def
      definePhilosopherRightChopstick_def
      zero_ServerPhilosopher_def zero_Philosopher_def joined_def MAX_PHILOSOPHERS_def)

lemma createPhilosopher_later:
  assumes "tables w" "2 \<le> numberPhilosophers w" "numberPhilosophers w < MAX_PHILOSOPHERS"
  shows "if 0 < usage (chopsticks w ! 0)
         then \<exists>w'. createPhilosopher w = Returns (joined (numberPhilosophers w)) w' \<and>
           numberPhilosophers w' = Suc (numberPhilosophers w) \<and>
           philosophers w' =
             (philosophers w)
               [numberPhilosophers w - 1 :=
                  (philosophers w ! (numberPhilosophers w - 1))
                    \<lparr>rightChopstick := Some (numberPhilosophers w)\<rparr>,
                numberPhilosophers w := joined (numberPhilosophers w)] \<and>
           chopsticks w' =
             (chopsticks w)[numberPhilosophers w :=
                \<lparr>id_chopstick = int (numberPhilosophers w) + 1, usage = 1\<rparr>] \<and>
           maxAllowedEating w' =
             maxAllowedEating w + (if even (Suc (numberPhilosophers w)) then 1 else 0) \<and>
           philosopherCreationProcess w' = 1 \<and>
           numberChopsticks w' = numberChopsticks w
         else \<exists>k w'. createPhilosopher w = Waits (Usage 0) k w'"
proof -
  let ?n = "numberPhilosophers w"
  have last: "rightChopstick (philosophers w ! (?n - 1)) = Some 0"
    using tables_slot(3) [OF assms(1), of "?n - 1"] assms(2) by (simp add: ring_def)
  have len: "length (chopsticks w) = MAX_PHILOSOPHERS" "philosopherCreationProcess w = 1"
    using tables_sizes [OF assms(1)] by simp_all
  show ?thesis
  proof (cases "0 < usage (chopsticks w ! 0)")
    case False
    with assms(2,3) last len show ?thesis
      by (simp add: createPhilosopher_def sem_wait_eq createChopstick_def Let_def
          definePhilosopherRightChopstick_def zero_ServerPhilosopher_def zero_Philosopher_def)
  next
    case True
    with assms(2,3) last len show ?thesis
      by (auto simp: createPhilosopher_def sem_wait_eq createChopstick_def Let_def
          definePhilosopherRightChopstick_def zero_ServerPhilosopher_def zero_Philosopher_def
          joined_def list_update_same_conv mod_Suc)
  qed
qed

lemma createPhilosopher_Returns:
  assumes "tables w" "createPhilosopher w = Returns p w'"
  shows "numberPhilosophers w < MAX_PHILOSOPHERS"
    and "2 \<le> numberPhilosophers w \<Longrightarrow> 0 < usage (chopsticks w ! 0)"
    and "p = joined (numberPhilosophers w)"
    and "numberPhilosophers w' = Suc (numberPhilosophers w)"
    and "philosophers w' =
           (if numberPhilosophers w = 0 then philosophers w
            else (philosophers w)
              [numberPhilosophers w - 1 :=
                 (philosophers w ! (numberPhilosophers w - 1))
                   \<lparr>rightChopstick := Some (numberPhilosophers w)\<rparr>])
           [numberPhilosophers w := joined (numberPhilosophers w)]"
    and "chopsticks w' =
           (chopsticks w)[numberPhilosophers w :=
              \<lparr>id_chopstick = int (numberPhilosophers w) + 1, usage = 1\<rparr>]"
    and "maxAllowedEating w' =
           maxAllowedEating w + (if even (Suc (numberPhilosophers w)) then 1 else 0)"
    and "philosopherCreationProcess w' = 1"
    and "numberChopsticks w' = numberChopsticks w"
proof -
  let ?n = "numberPhilosophers w"
  have "?n \<le> MAX_PHILOSOPHERS"
    using tables_sizes(3) [OF assms(1)] .
  moreover have "?n \<noteq> MAX_PHILOSOPHERS"
    using createPhilosopher_full [OF assms(1)] assms(2) by auto
  ultimately show bound: "?n < MAX_PHILOSOPHERS"
    by simp
  consider "?n = 0" | "?n = 1" | "2 \<le> ?n"
    by linarith
  then have all: "(2 \<le> ?n \<longrightarrow> 0 < usage (chopsticks w ! 0)) \<and>
      p = joined ?n \<and> numberPhilosophers w' = Suc ?n \<and>
      philosophers w' =
           (if ?n = 0 then philosophers w
            else (philosophers w)
              [?n - 1 := (philosophers w ! (?n - 1))\<lparr>rightChopstick := Some ?n\<rparr>])
           [?n := joined ?n] \<and>
      chopsticks w' = (chopsticks w)[?n := \<lparr>id_chopstick = int ?n + 1, usage = 1\<rparr>] \<and>
      maxAllowedEating w' = maxAllowedEating w + (if even (Suc ?n) then 1 else 0) \<and>
      philosopherCreationProcess w' = 1 \<and> numberChopsticks w' = numberChopsticks w"
  proof cases
    case 1
    with createPhilosopher_first [OF assms(1)] assms(2) show ?thesis
      by auto
  next
    case 2
    with createPhilosopher_second [OF assms(1)] assms(2) show ?thesis
      by auto
  next
    case 3
    with createPhilosopher_later [OF assms(1) _ bound] assms(2) show ?thesis
      by (auto split: if_splits)
  qed
  from all show "2 \<le> ?n \<Longrightarrow> 0 < usage (chopsticks w ! 0)" by simp
  from all show "p = joined ?n" by simp
  from all show "numberPhilosophers w' = Suc ?n" by simp
  from all show "philosophers w' =
           (if ?n = 0 then philosophers w
            else (philosophers w)
              [?n - 1 := (philosophers w ! (?n - 1))\<lparr>rightChopstick := Some ?n\<rparr>])
           [?n := joined ?n]" by simp
  from all show "chopsticks w' = (chopsticks w)[?n := \<lparr>id_chopstick = int ?n + 1, usage = 1\<rparr>]"
    by simp
  from all show "maxAllowedEating w' = maxAllowedEating w + (if even (Suc ?n) then 1 else 0)"
    by simp
  from all show "philosopherCreationProcess w' = 1" by simp
  from all show "numberChopsticks w' = numberChopsticks w" by simp
qed

lemma createPhilosopher_total:
  assumes "tables w" "numberPhilosophers w < MAX_PHILOSOPHERS"
    "2 \<le> numberPhilosophers w \<Longrightarrow> 0 < usage (chopsticks w ! 0)"
  shows "\<exists>w'. createPhilosopher w = Returns (joined (numberPhilosophers w)) w'"
proof -
  consider "numberPhilosophers w = 0" | "numberPhilosophers w = 1" | "2 \<le> numberPhilosophers w"
    by linarith
  then show ?thesis
  proof cases
    case 1
    with createPhilosopher_first [OF assms(1)] show ?thesis by auto
  next
    case 2
    with createPhilosopher_second [OF assms(1)] show ?thesis by auto
  next
    case 3
    with createPhilosopher_later [OF assms(1) _ assms(2)] assms(3) show ?thesis
      by (auto split: if_splits)
  qed
qed

lemma ring_grows:
  assumes "i < n"
  shows "ring (Suc n) i = (if Suc i = n then Some n else ring n i)"
  using assms by (auto simp: ring_def)

lemma ring_last: "ring (Suc n) n = (if n = 0 then None else Some 0)"
  by (simp add: ring_def)

lemma createPhilosopher_tables:
  assumes "tables w" "createPhilosopher w = Returns p w'"
  shows "tables w'"
proof -
  let ?n = "numberPhilosophers w"
  note r = createPhilosopher_Returns [OF assms]
  note s = tables_sizes [OF assms(1)]
  have slot: "if i < Suc ?n
        then id_philosopher (base (philosophers w' ! i)) = int i + 1 \<and>
             leftChopstick (philosophers w' ! i) = Some i \<and>
             rightChopstick (philosophers w' ! i) = ring (Suc ?n) i \<and>
             id_chopstick (chopsticks w' ! i) = int i + 1
        else id_philosopher (base (philosophers w' ! i)) = 0 \<and>
             leftChopstick (philosophers w' ! i) = None \<and>
             rightChopstick (philosophers w' ! i) = None \<and>
             chopsticks w' ! i = zero_Chopstick" if "i < MAX_PHILOSOPHERS" for i
  proof -
    consider "i = ?n" | "Suc i = ?n" | "Suc i < ?n" | "?n < i"
      by linarith
    then show ?thesis
    proof cases
      case 1
      with r(1) s show ?thesis
        by (simp add: r(5,6) joined_def ring_last)
    next
      case 2
      then have "?n - 1 = i" "?n \<noteq> i" "i < ?n" "?n \<noteq> 0"
        by simp_all
      with 2 r(1) s tables_slot [OF assms(1), of i] show ?thesis
        by (simp add: r(5,6) ring_grows)
    next
      case 3
      then have "?n - 1 \<noteq> i" "?n \<noteq> i" "i < ?n" "?n \<noteq> 0" "Suc i \<noteq> ?n"
        by simp_all
      with r(1) s tables_slot [OF assms(1), of i] show ?thesis
        by (simp add: r(5,6) ring_grows)
    next
      case 4
      with r(1) s tables_free_slot [OF assms(1), of i] that show ?thesis
        by (auto simp: r(5,6))
    qed
  qed
  have "length (philosophers w') = MAX_PHILOSOPHERS" "length (chopsticks w') = MAX_PHILOSOPHERS"
    "numberPhilosophers w' \<le> MAX_PHILOSOPHERS" "philosopherCreationProcess w' = 1"
    "numberChopsticks w' = 0"
    using r(1) s by (simp_all add: r(4-9))
  moreover have "\<forall>i<MAX_PHILOSOPHERS.
        if i < numberPhilosophers w'
        then id_philosopher (base (philosophers w' ! i)) = int i + 1 \<and>
             leftChopstick (philosophers w' ! i) = Some i \<and>
             rightChopstick (philosophers w' ! i) = ring (numberPhilosophers w') i \<and>
             id_chopstick (chopsticks w' ! i) = int i + 1
        else id_philosopher (base (philosophers w' ! i)) = 0 \<and>
             leftChopstick (philosophers w' ! i) = None \<and>
             rightChopstick (philosophers w' ! i) = None \<and>
             chopsticks w' ! i = zero_Chopstick"
    unfolding r(4) using slot by blast
  ultimately show ?thesis
    unfolding tables_def by blast
qed

section \<open>What an update writes\<close>


lemma negotiate_granted:
  assumes "leftChopstick (philosophers w ! i) = Some l"
    and "rightChopstick (philosophers w ! i) = Some r"
    and "l \<noteq> r" "l < length (chopsticks w)" "r < length (chopsticks w)"
    and "0 < maxAllowedEating w" "0 < usage (chopsticks w ! l)" "0 < usage (chopsticks w ! r)"
  shows "\<exists>w'. negotiate philosopher i w = Returns (Some i) w' \<and>
           philosophers w' =
             (philosophers w)[i := (philosophers w ! i)
                \<lparr>base := (base (philosophers w ! i))\<lparr>state := EATING, stateTimer := 0\<rparr>\<rparr>] \<and>
           chopsticks w' =
             (chopsticks w)[l := (chopsticks w ! l)\<lparr>usage := usage (chopsticks w ! l) - 1\<rparr>,
                            r := (chopsticks w ! r)\<lparr>usage := usage (chopsticks w ! r) - 1\<rparr>] \<and>
           maxAllowedEating w' = maxAllowedEating w - 1 \<and>
           numberPhilosophers w' = numberPhilosophers w \<and>
           philosopherCreationProcess w' = philosopherCreationProcess w \<and>
           numberChopsticks w' = numberChopsticks w \<and>
           sem_calls (since w w') =
             [SemTryWait MaxAllowedEating True, SemTryWait (Usage l) True,
              SemTryWait (Usage r) True]"
  using assms
  by (simp add: negotiate_def afterGate_def takeLeft_def afterLeft_def takeRight_def grant_def acquire_eq Let_def sem_calls_def since_def)

lemma negotiate_Returns:
  assumes "negotiate philosopher i w = Returns res w'"
  shows "\<exists>l r. leftChopstick (philosophers w ! i) = Some l \<and>
    rightChopstick (philosophers w ! i) = Some r \<and>
    0 < maxAllowedEating w \<and> 0 < usage (chopsticks w ! l) \<and>
    0 < usage ((chopsticks w)[l := (chopsticks w ! l)\<lparr>usage := usage (chopsticks w ! l) - 1\<rparr>] ! r) \<and>
    res = Some i"
  using assms
  by (auto simp: negotiate_def afterGate_def takeLeft_def afterLeft_def takeRight_def grant_def acquire_eq Let_def
      split: option.splits if_splits)

lemma negotiate_blocked_gate:
  assumes "maxAllowedEating w = 0"
  shows "\<exists>k w'. negotiate philosopher i w = Waits MaxAllowedEating k w' \<and>
           philosophers w' = philosophers w \<and> chopsticks w' = chopsticks w \<and>
           maxAllowedEating w' = maxAllowedEating w \<and>
           numberPhilosophers w' = numberPhilosophers w \<and>
           sem_calls (since w w') = [SemTryWait MaxAllowedEating False]"
  using assms
  by (simp add: negotiate_def acquire_eq sem_calls_def since_def)

lemma negotiate_blocked_left:
  assumes "0 < maxAllowedEating w" "leftChopstick (philosophers w ! i) = Some l"
    and "usage (chopsticks w ! l) = 0"
  shows "\<exists>k w'. negotiate philosopher i w = Waits (Usage l) k w' \<and>
           philosophers w' = philosophers w \<and> chopsticks w' = chopsticks w \<and>
           maxAllowedEating w' = maxAllowedEating w - 1 \<and>
           numberPhilosophers w' = numberPhilosophers w \<and>
           sem_calls (since w w') =
             [SemTryWait MaxAllowedEating True, SemTryWait (Usage l) False]"
  using assms
  by (simp add: negotiate_def afterGate_def takeLeft_def acquire_eq Let_def sem_calls_def since_def)

lemma negotiate_blocked_right:
  assumes "0 < maxAllowedEating w" "leftChopstick (philosophers w ! i) = Some l"
    and "0 < usage (chopsticks w ! l)" "rightChopstick (philosophers w ! i) = Some r"
    and "l \<noteq> r" "usage (chopsticks w ! r) = 0"
  shows "\<exists>k w'. negotiate philosopher i w = Waits (Usage r) k w' \<and>
           philosophers w' = philosophers w \<and>
           chopsticks w' =
             (chopsticks w)[l := (chopsticks w ! l)\<lparr>usage := usage (chopsticks w ! l) - 1\<rparr>] \<and>
           maxAllowedEating w' = maxAllowedEating w - 1 \<and>
           numberPhilosophers w' = numberPhilosophers w \<and>
           sem_calls (since w w') =
             [SemTryWait MaxAllowedEating True, SemTryWait (Usage l) True,
              SemTryWait (Usage r) False]"
  using assms
  by (simp add: negotiate_def afterGate_def takeLeft_def afterLeft_def takeRight_def grant_def acquire_eq Let_def sem_calls_def
      since_def)

lemma negotiate_fault_left:
  assumes "0 < maxAllowedEating w" "leftChopstick (philosophers w ! i) = None"
  shows "\<exists>w'. negotiate philosopher i w = Faults w' \<and> philosophers w' = philosophers w \<and>
           sem_calls (since w w') = [SemTryWait MaxAllowedEating True]"
  using assms
  by (simp add: negotiate_def afterGate_def takeLeft_def acquire_eq Let_def sem_calls_def since_def)

lemma negotiate_never_posts:
  "SemPost s \<notin> set (since w (world_of (negotiate philosopher i w)))"
  by (auto simp: negotiate_def afterGate_def takeLeft_def afterLeft_def takeRight_def grant_def acquire_eq Let_def since_def
      split: option.splits)

lemma update_found:
  assumes "getPhilosopherFromId (id_philosopher philosopher) (philosophers w) = Some i"
  shows "i < MAX_PHILOSOPHERS"
    and "id_philosopher (base (philosophers w ! i)) = id_philosopher philosopher"
  using assms by (simp_all add: getPhilosopherFromId_Some)

lemma updatePhilosopher_overwrite:
  assumes "getPhilosopherFromId (id_philosopher philosopher) (philosophers w) = Some i"
    and "state philosopher = EATING \<or>
         state philosopher = THINKING \<and> state (base (philosophers w ! i)) \<noteq> EATING"
  shows "updatePhilosopher philosopher w =
           Returns None (logClientAction philosopher (setBase i philosopher w))"
  using assms by (auto simp: updatePhilosopher_def)

lemma updatePhilosopher_hungry:
  assumes "getPhilosopherFromId (id_philosopher philosopher) (philosophers w) = Some i"
    and "state philosopher = HUNGRY"
  shows "updatePhilosopher philosopher w = negotiate philosopher i (setBase i philosopher w)"
  using assms by (simp add: updatePhilosopher_def)

lemma updatePhilosopher_release:
  assumes "getPhilosopherFromId (id_philosopher philosopher) (philosophers w) = Some i"
    and "state philosopher = THINKING" "state (base (philosophers w ! i)) = EATING"
    and "leftChopstick (philosophers w ! i) = Some l"
    and "rightChopstick (philosophers w ! i) = Some r"
  shows "\<exists>w'. updatePhilosopher philosopher w = Returns None w' \<and>
           philosophers w' = (philosophers w)[i := (philosophers w ! i)\<lparr>base := philosopher\<rparr>] \<and>
           chopsticks w' = chopsticks (sem_post (Usage r) (sem_post (Usage l) w)) \<and>
           maxAllowedEating w' = maxAllowedEating w + 1 \<and>
           numberPhilosophers w' = numberPhilosophers w \<and>
           philosopherCreationProcess w' = philosopherCreationProcess w \<and>
           numberChopsticks w' = numberChopsticks w \<and>
           sem_calls (since w w') =
             [SemPost (Usage l), SemPost (Usage r), SemPost MaxAllowedEating]"
  using assms
  by (simp add: updatePhilosopher_def release_def Let_def sem_calls_def since_def
      logClientAction_def)

lemma updatePhilosopher_release_fault:
  assumes "getPhilosopherFromId (id_philosopher philosopher) (philosophers w) = Some i"
    and "state philosopher = THINKING" "state (base (philosophers w ! i)) = EATING"
    and "leftChopstick (philosophers w ! i) = None \<or> rightChopstick (philosophers w ! i) = None"
  shows "\<exists>w'. updatePhilosopher philosopher w = Faults w' \<and> philosophers w' = philosophers w"
  using assms
  by (auto simp: updatePhilosopher_def release_def Let_def split: option.splits)

section \<open>The shape of the tables is kept\<close>

lemma tables_frame:
  assumes "tables w"
    and "numberPhilosophers w' = numberPhilosophers w"
    and "philosopherCreationProcess w' = philosopherCreationProcess w"
    and "numberChopsticks w' = numberChopsticks w"
    and "length (philosophers w') = length (philosophers w)"
    and "length (chopsticks w') = length (chopsticks w)"
    and "\<And>i. i < MAX_PHILOSOPHERS \<Longrightarrow>
           id_philosopher (base (philosophers w' ! i)) = id_philosopher (base (philosophers w ! i)) \<and>
           leftChopstick (philosophers w' ! i) = leftChopstick (philosophers w ! i) \<and>
           rightChopstick (philosophers w' ! i) = rightChopstick (philosophers w ! i)"
    and "\<And>i. i < numberPhilosophers w \<Longrightarrow>
           id_chopstick (chopsticks w' ! i) = id_chopstick (chopsticks w ! i)"
    and "\<And>i. numberPhilosophers w \<le> i \<Longrightarrow> i < MAX_PHILOSOPHERS \<Longrightarrow>
           chopsticks w' ! i = chopsticks w ! i"
  shows "tables w'"
proof -
  have "if i < numberPhilosophers w'
        then id_philosopher (base (philosophers w' ! i)) = int i + 1 \<and>
             leftChopstick (philosophers w' ! i) = Some i \<and>
             rightChopstick (philosophers w' ! i) = ring (numberPhilosophers w') i \<and>
             id_chopstick (chopsticks w' ! i) = int i + 1
        else id_philosopher (base (philosophers w' ! i)) = 0 \<and>
             leftChopstick (philosophers w' ! i) = None \<and>
             rightChopstick (philosophers w' ! i) = None \<and>
             chopsticks w' ! i = zero_Chopstick" if i: "i < MAX_PHILOSOPHERS" for i
  proof (cases "i < numberPhilosophers w")
    case True
    with tables_slot [OF assms(1) True] assms(7) [OF i] assms(8) [OF True] show ?thesis
      by (simp add: assms(2))
  next
    case False
    with tables_free_slot [OF assms(1) _ i] assms(7) [OF i] assms(9) [OF _ i] show ?thesis
      by (simp add: assms(2))
  qed
  with tables_sizes [OF assms(1)] show ?thesis
    unfolding tables_def by (simp add: assms(2-6))
qed

lemma tables_trace [simp]: "tables (w\<lparr>trace := t\<rparr>) = tables w"
  by (simp add: tables_def)

lemma tables_found:
  assumes "tables w" "getPhilosopherFromId ident (philosophers w) = Some i"
  shows "i < numberPhilosophers w \<and> ident = int i + 1 \<or>
         i = numberPhilosophers w \<and> i < MAX_PHILOSOPHERS \<and> ident = 0"
proof -
  from assms(2) have i: "i < MAX_PHILOSOPHERS" "id_philosopher (base (philosophers w ! i)) = ident"
    and first: "\<forall>j<i. id_philosopher (base (philosophers w ! j)) \<noteq> ident"
    by (simp_all add: getPhilosopherFromId_Some)
  show ?thesis
  proof (cases "i < numberPhilosophers w")
    case True
    with tables_slot(1) [OF assms(1) True] i show ?thesis by simp
  next
    case False
    then have z: "ident = 0"
      using tables_free_slot(1) [OF assms(1), of i] i by simp
    have "\<not> numberPhilosophers w < i"
    proof
      assume "numberPhilosophers w < i"
      with first have "id_philosopher (base (philosophers w ! numberPhilosophers w)) \<noteq> ident"
        by simp
      moreover have "id_philosopher (base (philosophers w ! numberPhilosophers w)) = 0"
        using tables_free_slot(1) [OF assms(1), of "numberPhilosophers w"] False i(1) by simp
      ultimately show False using z by simp
    qed
    with False z i(1) show ?thesis by simp
  qed
qed


lemma tables_lookup_zero:
  assumes "tables w" "numberPhilosophers w < MAX_PHILOSOPHERS"
  shows "getPhilosopherFromId 0 (philosophers w) = Some (numberPhilosophers w)"
proof -
  have "id_philosopher (base (philosophers w ! j)) \<noteq> 0" if "j < numberPhilosophers w" for j
    using tables_slot(1) [OF assms(1) that] by simp
  with tables_free_slot(1) [OF assms(1) _ assms(2)] assms(2) show ?thesis
    by (simp add: getPhilosopherFromId_Some)
qed

lemma ring_distinct:
  assumes "ring n i = Some r" "i < n"
  shows "r \<noteq> i" "r < n" "2 \<le> n"
proof -
  from assms(1) show n: "2 \<le> n" and "r < n"
    by (auto simp: ring_def split: if_splits)
  from assms n have "r = (if Suc i = n then 0 else Suc i)"
    by (auto simp: ring_def mod_Suc split: if_splits)
  with assms(2) n show "r \<noteq> i"
    by (auto split: if_splits)
qed

lemma updatePhilosopher_tables:
  assumes "tables w" "updatePhilosopher philosopher w = Returns res w'"
  shows "tables w'"
proof (cases "getPhilosopherFromId (id_philosopher philosopher) (philosophers w)")
  case None
  with assms show ?thesis
    by (auto simp: updatePhilosopher_def logClientInfo_def emit_def)
next
  case (Some i)
  note found = update_found [OF Some]
  note s = tables_sizes [OF assms(1)]
  consider (overwrite) "state philosopher = EATING \<or>
         state philosopher = THINKING \<and> state (base (philosophers w ! i)) \<noteq> EATING"
    | (release) "state philosopher = THINKING" "state (base (philosophers w ! i)) = EATING"
    | (hungry) "state philosopher = HUNGRY"
    | (invalid) "state philosopher = INVALID"
    by (cases "state philosopher") auto
  then show ?thesis
  proof cases
    case invalid
    with Some assms show ?thesis
      by (simp add: updatePhilosopher_def)
  next
    case overwrite
    from updatePhilosopher_overwrite [OF Some overwrite] assms(2)
    have w': "w' = logClientAction philosopher (setBase i philosopher w)"
      by simp
    show ?thesis
      by (rule tables_frame [OF assms(1)])
        (use found s in \<open>auto simp: w' nth_list_update\<close>)
  next
    case release
    show ?thesis
    proof (cases "i < numberPhilosophers w")
      case False
      with tables_found [OF assms(1) Some] have "leftChopstick (philosophers w ! i) = None"
        using tables_free_slot(2) [OF assms(1), of i] by auto
      with updatePhilosopher_release_fault [OF Some release] assms(2) show ?thesis
        by auto
    next
      case True
      note slot = tables_slot [OF assms(1) True]
      show ?thesis
      proof (cases "ring (numberPhilosophers w) i")
        case None
        with updatePhilosopher_release_fault [OF Some release] slot(3) assms(2) show ?thesis
          by auto
      next
        case (Some r)
        note r = ring_distinct [OF Some True]
        from updatePhilosopher_release [OF \<open>getPhilosopherFromId _ _ = Some i\<close> release slot(2)]
          slot(3) Some assms(2)
        have f: "philosophers w' = (philosophers w)[i := (philosophers w ! i)\<lparr>base := philosopher\<rparr>]"
          "chopsticks w' = chopsticks (sem_post (Usage r) (sem_post (Usage i) w))"
          "numberPhilosophers w' = numberPhilosophers w"
          "philosopherCreationProcess w' = philosopherCreationProcess w"
          "numberChopsticks w' = numberChopsticks w"
          by auto
        show ?thesis
          by (rule tables_frame [OF assms(1)])
            (use found s r True in \<open>auto simp: f nth_list_update\<close>)
      qed
    qed
  next
    case hungry
    from updatePhilosopher_hungry [OF Some hungry] assms(2)
    have n: "negotiate philosopher i (setBase i philosopher w) = Returns res w'"
      by simp
    from negotiate_Returns [OF n] found(1) s(1)
    obtain l r where lr: "leftChopstick (philosophers w ! i) = Some l"
      "rightChopstick (philosophers w ! i) = Some r"
      and avail: "0 < maxAllowedEating w" "0 < usage (chopsticks w ! l)"
        "0 < usage ((chopsticks w)[l := (chopsticks w ! l)\<lparr>usage := usage (chopsticks w ! l) - 1\<rparr>] ! r)"
      by auto
    have True: "i < numberPhilosophers w"
      using tables_found [OF assms(1) Some] tables_free_slot(2) [OF assms(1), of i] lr(1)
      by auto
    note slot = tables_slot [OF assms(1) True]
    from slot lr have l: "l = i" and ring: "ring (numberPhilosophers w) i = Some r"
      by simp_all
    note r = ring_distinct [OF ring True]
    from avail r l have "0 < usage (chopsticks w ! r)"
      by simp
    from negotiate_granted [of "setBase i philosopher w" i l r philosopher] lr r l True s
      avail(1,2) this found(1) n
    have f: "philosophers w' =
        (philosophers w)[i := (philosophers w ! i)
          \<lparr>base := philosopher\<lparr>state := EATING, stateTimer := 0\<rparr>\<rparr>]"
      "chopsticks w' =
        (chopsticks w)[l := (chopsticks w ! l)\<lparr>usage := usage (chopsticks w ! l) - 1\<rparr>,
                       r := (chopsticks w ! r)\<lparr>usage := usage (chopsticks w ! r) - 1\<rparr>]"
      "numberPhilosophers w' = numberPhilosophers w"
      "philosopherCreationProcess w' = philosopherCreationProcess w"
      "numberChopsticks w' = numberChopsticks w"
      by auto
    show ?thesis
      by (rule tables_frame [OF assms(1)])
        (use found s r l True in \<open>auto simp: f nth_list_update\<close>)
  qed
qed

lemma tables_start: "tables start"
  by (simp add: tables_def start_def attachSharedResources_def shmget_def sem_init_def emit_def
      Let_def zero_ServerPhilosopher_def zero_Philosopher_def)

lemma serve_tables:
  assumes "tables w" "serve r w = Returns u w'"
  shows "tables w'"
proof (cases r)
  case REQUEST_CREATE
  with assms show ?thesis
    by (cases "createPhilosopher w") (auto dest: createPhilosopher_tables)
next
  case (REQUEST_UPDATE philosopher)
  with assms show ?thesis
    by (cases "updatePhilosopher philosopher w") (auto dest: updatePhilosopher_tables)
qed

lemma run_Cons_Returns:
  assumes "run (r # rs) w = Returns u w'"
  obtains w1 where "serve r w = Returns () w1" "run rs w1 = Returns u w'"
  using assms by (cases "serve r w") auto

lemma run_tables:
  assumes "tables w" "run rs w = Returns u w'"
  shows "tables w'"
  using assms
proof (induction rs arbitrary: w)
  case Nil
  then show ?case by simp
next
  case (Cons r rs)
  from Cons.prems(2) obtain w1 where "serve r w = Returns () w1" "run rs w1 = Returns u w'"
    by (rule run_Cons_Returns)
  with Cons.IH serve_tables [OF Cons.prems(1)] show ?case
    by blast
qed

lemma negotiate_numberPhilosophers:
  "numberPhilosophers (world_of (negotiate philosopher i w)) = numberPhilosophers w"
  by (auto simp: negotiate_def afterGate_def takeLeft_def afterLeft_def takeRight_def grant_def acquire_eq Let_def
      split: option.splits)

lemma updatePhilosopher_numberPhilosophers:
  "numberPhilosophers (world_of (updatePhilosopher philosopher w)) = numberPhilosophers w"
  by (auto simp: updatePhilosopher_def release_def Let_def negotiate_numberPhilosophers
      split: option.splits PhilosopherState.splits)

lemma serve_numberPhilosophers:
  assumes "tables w" "serve r w = Returns u w'"
  shows "numberPhilosophers w' = numberPhilosophers w + joins [r]"
proof (cases r)
  case REQUEST_CREATE
  with assms show ?thesis
    by (cases "createPhilosopher w") (auto simp: joins_def dest: createPhilosopher_Returns(4))
next
  case (REQUEST_UPDATE philosopher)
  with assms updatePhilosopher_numberPhilosophers [of philosopher w] show ?thesis
    by (cases "updatePhilosopher philosopher w") (auto simp: joins_def)
qed

lemma run_numberPhilosophers:
  assumes "tables w" "run rs w = Returns u w'"
  shows "numberPhilosophers w' = numberPhilosophers w + joins rs"
  using assms
proof (induction rs arbitrary: w)
  case Nil
  then show ?case by (simp add: joins_def)
next
  case (Cons r rs)
  from Cons.prems(2) obtain w1 where 1: "serve r w = Returns () w1" "run rs w1 = Returns u w'"
    by (rule run_Cons_Returns)
  from Cons.IH [OF serve_tables [OF Cons.prems(1) 1(1)] 1(2)]
    serve_numberPhilosophers [OF Cons.prems(1) 1(1)]
  show ?case
    by (simp add: joins_def)
qed

lemma joins_only:
  assumes "tables w" "0 < numberPhilosophers w \<longrightarrow> 0 < usage (chopsticks w ! 0)"
    and "numberPhilosophers w + k \<le> MAX_PHILOSOPHERS"
  shows "\<exists>w'. run (replicate k REQUEST_CREATE) w = Returns () w'"
  using assms
proof (induction k arbitrary: w)
  case 0
  then show ?case by simp
next
  case (Suc k)
  from createPhilosopher_total [OF Suc.prems(1)] Suc.prems(2,3)
  obtain w1 where c: "createPhilosopher w = Returns (joined (numberPhilosophers w)) w1"
    by auto
  note r = createPhilosopher_Returns [OF Suc.prems(1) c]
  have "0 < usage (chopsticks w1 ! 0)"
    using Suc.prems(2) tables_sizes(2) [OF Suc.prems(1)] r(1)
    by (cases "numberPhilosophers w = 0") (simp_all add: r(6))
  with Suc.IH [OF createPhilosopher_tables [OF Suc.prems(1) c]] Suc.prems(3) r(4)
  obtain w' where "run (replicate k REQUEST_CREATE) w1 = Returns () w'"
    by auto
  with c show ?case by simp
qed

lemma joins_from_start:
  assumes "n \<le> MAX_PHILOSOPHERS"
  shows "\<exists>w. run (replicate n REQUEST_CREATE) start = Returns () w"
proof -
  have "numberPhilosophers start = 0"
    by (simp add: start_def attachSharedResources_def Let_def)
  with joins_only [OF tables_start, of n] assms show ?thesis
    by simp
qed

lemma updatePhilosopher_Returns_cases:
  assumes "tables w" "updatePhilosopher philosopher w = Returns res w'"
  obtains
    (unknown) "getPhilosopherFromId (id_philosopher philosopher) (philosophers w) = None"
      "res = None" "w' = w\<lparr>trace := trace w @ [unknownIdentityRecord]\<rparr>"
  | (overwrite) i where
      "getPhilosopherFromId (id_philosopher philosopher) (philosophers w) = Some i"
      "state philosopher = EATING \<or>
       state philosopher = THINKING \<and> state (base (philosophers w ! i)) \<noteq> EATING"
      "res = None"
      "philosophers w' = (philosophers w)[i := (philosophers w ! i)\<lparr>base := philosopher\<rparr>]"
      "chopsticks w' = chopsticks w" "maxAllowedEating w' = maxAllowedEating w"
  | (release) i r where
      "getPhilosopherFromId (id_philosopher philosopher) (philosophers w) = Some i"
      "i < numberPhilosophers w" "ring (numberPhilosophers w) i = Some r"
      "state philosopher = THINKING" "state (base (philosophers w ! i)) = EATING"
      "res = None"
      "philosophers w' = (philosophers w)[i := (philosophers w ! i)\<lparr>base := philosopher\<rparr>]"
      "chopsticks w' =
         (chopsticks w)[i := (chopsticks w ! i)\<lparr>usage := usage (chopsticks w ! i) + 1\<rparr>,
                        r := (chopsticks w ! r)\<lparr>usage := usage (chopsticks w ! r) + 1\<rparr>]"
      "maxAllowedEating w' = maxAllowedEating w + 1"
  | (granted) i r where
      "getPhilosopherFromId (id_philosopher philosopher) (philosophers w) = Some i"
      "i < numberPhilosophers w" "ring (numberPhilosophers w) i = Some r"
      "state philosopher = HUNGRY"
      "0 < maxAllowedEating w" "0 < usage (chopsticks w ! i)" "0 < usage (chopsticks w ! r)"
      "res = Some i"
      "philosophers w' =
         (philosophers w)[i := (philosophers w ! i)
            \<lparr>base := philosopher\<lparr>state := EATING, stateTimer := 0\<rparr>\<rparr>]"
      "chopsticks w' =
         (chopsticks w)[i := (chopsticks w ! i)\<lparr>usage := usage (chopsticks w ! i) - 1\<rparr>,
                        r := (chopsticks w ! r)\<lparr>usage := usage (chopsticks w ! r) - 1\<rparr>]"
      "maxAllowedEating w' = maxAllowedEating w - 1"
  | (invalid) i where
      "getPhilosopherFromId (id_philosopher philosopher) (philosophers w) = Some i"
      "state philosopher = INVALID" "res = None" "w' = w"
proof (cases "getPhilosopherFromId (id_philosopher philosopher) (philosophers w)")
  case None
  with assms(2) unknown show ?thesis
    by (simp add: updatePhilosopher_def logClientInfo_def emit_def unknownIdentityRecord_def)
next
  case (Some i)
  note found = update_found [OF Some]
  note s = tables_sizes [OF assms(1)]
  consider (o) "state philosopher = EATING \<or>
         state philosopher = THINKING \<and> state (base (philosophers w ! i)) \<noteq> EATING"
    | (r) "state philosopher = THINKING" "state (base (philosophers w ! i)) = EATING"
    | (h) "state philosopher = HUNGRY"
    | (v) "state philosopher = INVALID"
    by (cases "state philosopher") auto
  then show ?thesis
  proof cases
    case v
    with Some assms(2) have "res = None" "w' = w"
      by (simp_all add: updatePhilosopher_def)
    with invalid [OF Some v] show ?thesis
      by simp
  next
    case o
    from updatePhilosopher_overwrite [OF Some o] assms(2)
    have "res = None" "w' = logClientAction philosopher (setBase i philosopher w)"
      by simp_all
    with overwrite [OF Some o] show ?thesis
      by simp
  next
    case r
    have inside: "i < numberPhilosophers w"
    proof (rule ccontr)
      assume "\<not> i < numberPhilosophers w"
      with tables_found [OF assms(1) Some] have "leftChopstick (philosophers w ! i) = None"
        using tables_free_slot(2) [OF assms(1), of i] by auto
      with updatePhilosopher_release_fault [OF Some r] assms(2) show False
        by auto
    qed
    note slot = tables_slot [OF assms(1) inside]
    obtain c where ring: "ring (numberPhilosophers w) i = Some c"
      using updatePhilosopher_release_fault [OF Some r] slot(3) assms(2)
      by (cases "ring (numberPhilosophers w) i") auto
    note d = ring_distinct [OF ring inside]
    from updatePhilosopher_release [OF Some r slot(2)] slot(3) ring assms(2) d(1)
    have "res = None"
      "philosophers w' = (philosophers w)[i := (philosophers w ! i)\<lparr>base := philosopher\<rparr>]"
      "chopsticks w' =
         (chopsticks w)[i := (chopsticks w ! i)\<lparr>usage := usage (chopsticks w ! i) + 1\<rparr>,
                        c := (chopsticks w ! c)\<lparr>usage := usage (chopsticks w ! c) + 1\<rparr>]"
      "maxAllowedEating w' = maxAllowedEating w + 1"
      by auto
    with release [OF Some inside ring r] show ?thesis
      by simp
  next
    case h
    from updatePhilosopher_hungry [OF Some h] assms(2)
    have n: "negotiate philosopher i (setBase i philosopher w) = Returns res w'"
      by simp
    from negotiate_Returns [OF n] found(1) s(1)
    obtain l c where lr: "leftChopstick (philosophers w ! i) = Some l"
      "rightChopstick (philosophers w ! i) = Some c"
      and avail: "0 < maxAllowedEating w" "0 < usage (chopsticks w ! l)"
        "0 < usage ((chopsticks w)[l := (chopsticks w ! l)\<lparr>usage := usage (chopsticks w ! l) - 1\<rparr>] ! c)"
      and res: "res = Some i"
      by auto
    have inside: "i < numberPhilosophers w"
      using tables_found [OF assms(1) Some] tables_free_slot(2) [OF assms(1), of i] lr(1)
      by auto
    note slot = tables_slot [OF assms(1) inside]
    from slot lr have l: "l = i" and ring: "ring (numberPhilosophers w) i = Some c"
      by simp_all
    note d = ring_distinct [OF ring inside]
    from avail d l have free: "0 < usage (chopsticks w ! i)" "0 < usage (chopsticks w ! c)"
      by simp_all
    from negotiate_granted [of "setBase i philosopher w" i i c philosopher] lr d l inside s
      avail(1) free found(1) n
    have "philosophers w' =
        (philosophers w)[i := (philosophers w ! i)
          \<lparr>base := philosopher\<lparr>state := EATING, stateTimer := 0\<rparr>\<rparr>]"
      "chopsticks w' =
        (chopsticks w)[i := (chopsticks w ! i)\<lparr>usage := usage (chopsticks w ! i) - 1\<rparr>,
                       c := (chopsticks w ! c)\<lparr>usage := usage (chopsticks w ! c) - 1\<rparr>]"
      "maxAllowedEating w' = maxAllowedEating w - 1"
      by auto
    with granted [OF Some inside ring h avail(1) free res] show ?thesis
      by simp
  qed
qed

section \<open>Identifiers and slots\<close>

lemma start_empty: "numberPhilosophers start = 0"
  by (simp add: start_def attachSharedResources_def Let_def)

lemma run_start_tables:
  assumes "run rs start = Returns u w"
  shows "tables w" "numberPhilosophers w = joins rs"
  using run_tables [OF tables_start assms] run_numberPhilosophers [OF tables_start assms]
  by (simp_all add: start_empty)

text \<open>
  Claim C10. A run of join requests alone, up to capacity, returns. After any run of
  requests (joins and updates in any order) that has returned, the number of philosophers is
  the number of joins \<open>N\<close> of the run; for every \<open>i\<close> below \<open>N\<close> the philosopher slot \<open>i\<close> stores
  identifier \<open>i + 1\<close>, its left chopstick is the chopstick slot \<open>i\<close>, and that slot stores the
  chopstick with identifier \<open>i + 1\<close>; every slot from \<open>N\<close> on stores identifier 0 and the zero
  chopstick, so exactly \<open>N\<close> chopsticks exist.
\<close>

theorem identifiers_follow_slots:
  "(n \<le> MAX_PHILOSOPHERS \<longrightarrow> (\<exists>w. run (replicate n REQUEST_CREATE) start = Returns () w)) \<and>
   (run rs start = Returns () w \<longrightarrow>
      numberPhilosophers w = joins rs \<and> joins rs \<le> MAX_PHILOSOPHERS \<and>
      (\<forall>i<MAX_PHILOSOPHERS.
         if i < joins rs
         then id_philosopher (base (philosophers w ! i)) = int i + 1 \<and>
              leftChopstick (philosophers w ! i) = Some i \<and>
              id_chopstick (chopsticks w ! i) = int i + 1
         else id_philosopher (base (philosophers w ! i)) = 0 \<and>
              chopsticks w ! i = zero_Chopstick))"
proof (intro conjI impI)
  assume "n \<le> MAX_PHILOSOPHERS"
  then show "\<exists>w. run (replicate n REQUEST_CREATE) start = Returns () w"
    by (rule joins_from_start)
next
  assume r: "run rs start = Returns () w"
  note t = run_start_tables [OF r]
  show "numberPhilosophers w = joins rs"
    by (rule t(2))
  show "joins rs \<le> MAX_PHILOSOPHERS"
    using tables_sizes(3) [OF t(1)] t(2) by simp
  show "\<forall>i<MAX_PHILOSOPHERS.
         if i < joins rs
         then id_philosopher (base (philosophers w ! i)) = int i + 1 \<and>
              leftChopstick (philosophers w ! i) = Some i \<and>
              id_chopstick (chopsticks w ! i) = int i + 1
         else id_philosopher (base (philosophers w ! i)) = 0 \<and>
              chopsticks w ! i = zero_Chopstick"
    using tables_slot [OF t(1)] tables_free_slot [OF t(1)] t(2)
    by (metis not_le)
qed

theorem identifiers_follow_slots_witness:
  "(\<exists>w. run (replicate 3 REQUEST_CREATE) start = Returns () w) \<and>
   (case run [REQUEST_CREATE, REQUEST_CREATE,
              REQUEST_UPDATE \<lparr>id_philosopher = 2, state = HUNGRY, stateTimer = 0\<rparr>,
              REQUEST_UPDATE \<lparr>id_philosopher = 2, state = THINKING, stateTimer = 7\<rparr>,
              REQUEST_CREATE] start of
      Returns _ w \<Rightarrow>
        numberPhilosophers w = 3 \<and>
        id_philosopher (base (philosophers w ! 2)) = 3 \<and>
        leftChopstick (philosophers w ! 2) = Some 2 \<and>
        id_chopstick (chopsticks w ! 2) = 3 \<and>
        id_philosopher (base (philosophers w ! 3)) = 0 \<and>
        chopsticks w ! 3 = zero_Chopstick
    | _ \<Rightarrow> False)"
proof -
  let ?rs = "[REQUEST_CREATE, REQUEST_CREATE,
              REQUEST_UPDATE \<lparr>id_philosopher = 2, state = HUNGRY, stateTimer = 0\<rparr>,
              REQUEST_UPDATE \<lparr>id_philosopher = 2, state = THINKING, stateTimer = 7\<rparr>,
              REQUEST_CREATE]"
  have "(case run ?rs start of Returns _ w \<Rightarrow> True | _ \<Rightarrow> False)"
    by code_simp
  then obtain w where r: "run ?rs start = Returns () w"
    by (cases "run ?rs start") auto
  have j: "joins ?rs = 3"
    by (simp add: joins_def)
  from identifiers_follow_slots [of 3 ?rs w] r j
  have "(\<exists>w. run (replicate 3 REQUEST_CREATE) start = Returns () w)"
    and "numberPhilosophers w = 3"
    and a: "\<forall>i<MAX_PHILOSOPHERS.
         if i < 3
         then id_philosopher (base (philosophers w ! i)) = int i + 1 \<and>
              leftChopstick (philosophers w ! i) = Some i \<and>
              id_chopstick (chopsticks w ! i) = int i + 1
         else id_philosopher (base (philosophers w ! i)) = 0 \<and>
              chopsticks w ! i = zero_Chopstick"
    by (simp_all add: MAX_PHILOSOPHERS_def)
  moreover from a have "id_philosopher (base (philosophers w ! 2)) = 3 \<and>
        leftChopstick (philosophers w ! 2) = Some 2 \<and>
        id_chopstick (chopsticks w ! 2) = 3"
    by (simp add: MAX_PHILOSOPHERS_def)
  moreover from a have "id_philosopher (base (philosophers w ! 3)) = 0 \<and>
        chopsticks w ! 3 = zero_Chopstick"
    by (simp add: MAX_PHILOSOPHERS_def)
  ultimately show ?thesis
    using r by simp
qed

section \<open>References of a joined philosopher\<close>

text \<open>
  Claim C8, as the code has it. After any run of requests that has returned, every joined
  philosopher has a left chopstick; it has a right chopstick once at least two philosophers
  have joined, and none while it is the only one: \<^verbatim>\<open>createPhilosopher\<close> calls
  \<^verbatim>\<open>definePhilosopherRightChopstick\<close> only when \<^verbatim>\<open>lastPhilosopherId > 0\<close>, and the first
  philosopher's right reference is written by the second join.
\<close>

theorem references_after_join:
  assumes "run rs start = Returns () w" "i < numberPhilosophers w"
  shows "leftChopstick (philosophers w ! i) \<noteq> None \<and>
         (2 \<le> numberPhilosophers w \<longrightarrow> rightChopstick (philosophers w ! i) \<noteq> None) \<and>
         (numberPhilosophers w = 1 \<longrightarrow> rightChopstick (philosophers w ! i) = None)"
  using tables_slot(2,3) [OF run_start_tables(1) [OF assms(1)] assms(2)]
  by (simp add: ring_def)

theorem references_after_join_witness:
  "(case run [REQUEST_CREATE, REQUEST_CREATE, REQUEST_CREATE,
              REQUEST_UPDATE \<lparr>id_philosopher = 1, state = THINKING, stateTimer = 4\<rparr>] start of
      Returns _ w \<Rightarrow>
        leftChopstick (philosophers w ! 0) \<noteq> None \<and> rightChopstick (philosophers w ! 0) \<noteq> None
    | _ \<Rightarrow> False) \<and>
   (case run [REQUEST_CREATE] start of
      Returns _ w \<Rightarrow>
        leftChopstick (philosophers w ! 0) \<noteq> None \<and> rightChopstick (philosophers w ! 0) = None
    | _ \<Rightarrow> False)"
proof -
  let ?rs = "[REQUEST_CREATE, REQUEST_CREATE, REQUEST_CREATE,
              REQUEST_UPDATE \<lparr>id_philosopher = 1, state = THINKING, stateTimer = 4\<rparr>]"
  have "(case run ?rs start of Returns _ w \<Rightarrow> numberPhilosophers w = 3 | _ \<Rightarrow> False)"
    by code_simp
  then obtain w where r: "run ?rs start = Returns () w" and n: "numberPhilosophers w = 3"
    by (cases "run ?rs start") auto
  have "(case run [REQUEST_CREATE] start of
           Returns _ w \<Rightarrow> numberPhilosophers w = 1 | _ \<Rightarrow> False)"
    by code_simp
  then obtain w1 where r1: "run [REQUEST_CREATE] start = Returns () w1"
    and n1: "numberPhilosophers w1 = 1"
    by (cases "run [REQUEST_CREATE] start") auto
  from references_after_join [OF r, of 0] references_after_join [OF r1, of 0] n n1 r r1
  show ?thesis
    by simp
qed

text \<open>
  The claim as stated fails for the first philosopher while it is the only one joined: its
  right reference is \<^verbatim>\<open>NULL\<close>.
\<close>

theorem lone_philosopher_counterexample:
  "(case run [REQUEST_CREATE] start of
      Returns _ w \<Rightarrow>
        numberPhilosophers w = 1 \<and>
        id_philosopher (base (philosophers w ! 0)) = 1 \<and>
        leftChopstick (philosophers w ! 0) = Some 0 \<and>
        rightChopstick (philosophers w ! 0) = None
    | _ \<Rightarrow> False)"
  by code_simp

section \<open>The ring of chopsticks\<close>

lemma successor_tables:
  assumes "tables w" "c < numberPhilosophers w"
  shows "successor w c = ring (numberPhilosophers w) c"
proof -
  let ?xs = "take (numberPhilosophers w) (philosophers w)"
  have len: "length ?xs = numberPhilosophers w"
    using tables_sizes(1,3) [OF assms(1)] by simp
  have "find (\<lambda>p. leftChopstick p = Some c) ?xs = Some (philosophers w ! c)"
    unfolding find_Some_iff
  proof (intro exI [of _ c] conjI allI impI)
    show "c < length ?xs" using len assms(2) by simp
    show "leftChopstick (?xs ! c) = Some c"
      using tables_slot(2) [OF assms] assms(2) by simp
    show "philosophers w ! c = ?xs ! c"
      using assms(2) by simp
    fix j assume "j < c"
    with assms(2) tables_slot(2) [OF assms(1), of j]
    show "\<not> leftChopstick (?xs ! j) = Some c"
      by simp
  qed
  with tables_slot(3) [OF assms] show ?thesis
    by (simp add: successor_def)
qed

lemma walk_tables:
  assumes "tables w" "c + k \<le> numberPhilosophers w"
  shows "walk w k c = [c..<c + k]"
  using assms(2)
proof (induction k arbitrary: c)
  case 0
  then show ?case by simp
next
  case (Suc k)
  show ?case
  proof (cases k)
    case 0
    then show ?thesis
      by (simp split: option.split)
  next
    case (Suc k')
    with Suc.prems have "successor w c = Some (Suc c)"
      by (simp add: successor_tables [OF assms(1)] ring_def)
    with Suc.IH [of "Suc c"] Suc.prems show ?thesis
      by (simp add: upt_rec [of c])
  qed
qed

lemma leftChopsticks_tables:
  assumes "tables w"
  shows "leftChopsticks w = {0..<numberPhilosophers w}"
  using tables_slot(2) [OF assms] by (auto simp: leftChopsticks_def)

text \<open>
  Claim C2, as the code has it. For every \<open>n\<close> from 2 to the capacity, \<open>n\<close> joins on the fresh
  store return, and afterwards every joined philosopher has a left and a right chopstick,
  the right chopstick of each is the left chopstick of the next, the right chopstick of the
  last is the left chopstick of the first, and following the right references from the first
  philosopher's left chopstick visits \<open>n\<close> distinct chopsticks, exactly the left chopsticks of
  the joined philosophers, the successor of the last one visited being the starting one.
\<close>

theorem joins_close_the_ring:
  assumes "2 \<le> n" "n \<le> MAX_PHILOSOPHERS"
  shows "\<exists>w. run (replicate n REQUEST_CREATE) start = Returns () w \<and>
           numberPhilosophers w = n \<and>
           (\<forall>i<n. leftChopstick (philosophers w ! i) \<noteq> None \<and>
                   rightChopstick (philosophers w ! i) \<noteq> None) \<and>
           (\<forall>i. Suc i < n \<longrightarrow>
                rightChopstick (philosophers w ! i) = leftChopstick (philosophers w ! Suc i)) \<and>
           rightChopstick (philosophers w ! (n - 1)) = leftChopstick (philosophers w ! 0) \<and>
           leftChopstick (philosophers w ! 0) = Some 0 \<and>
           length (walk w n 0) = n \<and> distinct (walk w n 0) \<and>
           set (walk w n 0) = leftChopsticks w \<and>
           successor w (last (walk w n 0)) = Some 0"
proof -
  from joins_from_start [OF assms(2)]
  obtain w where r: "run (replicate n REQUEST_CREATE) start = Returns () w"
    by auto
  note t = run_start_tables [OF r]
  have n: "numberPhilosophers w = n"
    using t(2) by (simp add: joins_def)
  have slots: "leftChopstick (philosophers w ! i) = Some i"
    "rightChopstick (philosophers w ! i) = Some (Suc i mod n)" if "i < n" for i
    using tables_slot(2,3) [OF t(1), of i] that n assms(1) by (simp_all add: ring_def)
  have walk: "walk w n 0 = [0..<n]"
    using walk_tables [OF t(1), of 0 n] n by simp
  have "last [0..<n] = n - 1"
    using assms(1) by (simp add: last_upt)
  moreover have "successor w (n - 1) = Some 0"
    using successor_tables [OF t(1), of "n - 1"] n assms(1) by (simp add: ring_def)
  ultimately have closes: "successor w (last (walk w n 0)) = Some 0"
    by (simp add: walk)
  have "rightChopstick (philosophers w ! (n - 1)) = leftChopstick (philosophers w ! 0)"
    using slots [of "n - 1"] slots(1) [of 0] assms(1) by simp
  moreover have "\<forall>i. Suc i < n \<longrightarrow>
      rightChopstick (philosophers w ! i) = leftChopstick (philosophers w ! Suc i)"
    using slots by simp
  moreover have "set (walk w n 0) = leftChopsticks w"
    by (simp add: walk leftChopsticks_tables [OF t(1)] n)
  moreover have "leftChopstick (philosophers w ! 0) = Some 0"
    using slots(1) [of 0] assms(1) by simp
  ultimately show ?thesis
    using r n slots closes by (intro exI [of _ w]) (simp add: walk)
qed

theorem joins_close_the_ring_witness:
  "\<exists>w. run (replicate 5 REQUEST_CREATE) start = Returns () w \<and>
        numberPhilosophers w = 5 \<and>
        rightChopstick (philosophers w ! 3) = leftChopstick (philosophers w ! 4) \<and>
        rightChopstick (philosophers w ! 4) = leftChopstick (philosophers w ! 0) \<and>
        leftChopstick (philosophers w ! 0) = Some 0 \<and>
        length (walk w 5 0) = 5 \<and> distinct (walk w 5 0) \<and>
        set (walk w 5 0) = leftChopsticks w \<and>
        successor w (last (walk w 5 0)) = Some 0"
proof -
  have "(2::nat) \<le> 5" "5 \<le> MAX_PHILOSOPHERS"
    by (simp_all add: MAX_PHILOSOPHERS_def)
  from joins_close_the_ring [OF this] show ?thesis
    by (elim exE conjE, intro exI conjI) simp_all
qed

text \<open>
  The claim as stated covers a single join as well, and fails there: the philosopher
  returned by the first \<^verbatim>\<open>createPhilosopher\<close> has no right chopstick.
\<close>

theorem single_join_counterexample:
  "(case createPhilosopher start of
      Returns philosopher w \<Rightarrow>
        numberPhilosophers w = 1 \<and>
        philosophers w ! 0 = philosopher \<and>
        leftChopstick philosopher = Some 0 \<and>
        rightChopstick philosopher = None \<and>
        rightChopstick (philosophers w ! (numberPhilosophers w - 1)) \<noteq>
          leftChopstick (philosophers w ! 0)
    | _ \<Rightarrow> False)"
  by code_simp

section \<open>The hungry branch\<close>



lemma start_gate: "maxAllowedEating start = 0"
  by (simp add: start_def attachSharedResources_def Let_def sem_init_def)

lemma since_setBase [simp]: "since (setBase i b w) x = since w x"
  by (simp add: since_def)

lemma sem_getvalue_setBase [simp]: "sem_getvalue s (setBase i b v) = sem_getvalue s v"
  by (cases s) simp_all


lemma trace_decrement [simp]: "trace (decrement s e v) = trace v @ [e]"
  by (cases s) simp_all

lemma philosophers_decrement [simp]: "philosophers (decrement s e v) = philosophers v"
  by (cases s) simp_all

lemma length_chopsticks_decrement [simp]:
  "length (chopsticks (decrement s e v)) = length (chopsticks v)"
  by (cases s) simp_all

lemma refs_logServerState [simp]: "refs i l r (logServerState format args v) = refs i l r v"
  by (simp add: refs_def)

lemma refs_decrement [simp]: "refs i l r (decrement s e v) = refs i l r v"
  by (simp add: refs_def)


























section \<open>Updates that change no state\<close>

lemma updatePhilosopher_posts:
  assumes "SemPost s \<in> set (since w (world_of (updatePhilosopher philosopher w)))"
  shows "state philosopher = THINKING \<and>
         (\<exists>i. getPhilosopherFromId (id_philosopher philosopher) (philosophers w) = Some i \<and>
              state (base (philosophers w ! i)) = EATING)"
proof (cases "getPhilosopherFromId (id_philosopher philosopher) (philosophers w)")
  case None
  with assms show ?thesis
    by (simp add: updatePhilosopher_def since_def)
next
  case (Some i)
  show ?thesis
  proof (cases "state philosopher")
    case THINKING
    show ?thesis
    proof (cases "state (base (philosophers w ! i)) = EATING")
      case True
      with Some THINKING show ?thesis by simp
    next
      case False
      with updatePhilosopher_overwrite [OF Some] THINKING assms show ?thesis
        by (simp add: since_def logClientAction_def)
    qed
  next
    case HUNGRY
    with updatePhilosopher_hungry [OF Some] assms
      negotiate_never_posts [of s "setBase i philosopher w" philosopher i]
    show ?thesis by simp
  next
    case EATING
    with updatePhilosopher_overwrite [OF Some] assms show ?thesis
      by (simp add: since_def logClientAction_def)
  next
    case INVALID
    with Some assms show ?thesis
      by (simp add: updatePhilosopher_def since_def)
  qed
qed

lemma negotiate_probes_gate:
  "\<exists>b es. sem_calls (since w (world_of (negotiate philosopher i w))) =
     SemTryWait MaxAllowedEating b # es"
  by (auto simp: negotiate_def afterGate_def takeLeft_def afterLeft_def takeRight_def grant_def acquire_eq Let_def since_def
      sem_calls_def split: option.splits)

text \<open>
  Claim C6, as the code has it. For a philosopher found in the table: an incoming
  \<^verbatim>\<open>THINKING\<close> on a stored state other than \<^verbatim>\<open>EATING\<close> overwrites the stored record and makes
  no semaphore call, leaving every chopstick and the counter as they were; whatever the
  update and however it ends, a \<^verbatim>\<open>sem_post\<close> is made only when the incoming state is
  \<^verbatim>\<open>THINKING\<close> and the stored one \<^verbatim>\<open>EATING\<close>; an incoming \<^verbatim>\<open>HUNGRY\<close> starts the acquisition with
  a probe of the counter whatever the stored state, \<^verbatim>\<open>HUNGRY\<close> included.
\<close>

theorem only_eating_to_thinking_releases:
  assumes "getPhilosopherFromId (id_philosopher philosopher) (philosophers w) = Some i"
  shows "(state philosopher = THINKING \<and> state (base (philosophers w ! i)) \<noteq> EATING \<longrightarrow>
            (\<exists>w'. updatePhilosopher philosopher w = Returns None w' \<and>
                   philosophers w' =
                     (philosophers w)[i := (philosophers w ! i)\<lparr>base := philosopher\<rparr>] \<and>
                   chopsticks w' = chopsticks w \<and>
                   maxAllowedEating w' = maxAllowedEating w \<and>
                   sem_calls (since w w') = [])) \<and>
         (\<forall>s. SemPost s \<in> set (since w (world_of (updatePhilosopher philosopher w))) \<longrightarrow>
              state philosopher = THINKING \<and> state (base (philosophers w ! i)) = EATING) \<and>
         (state philosopher = HUNGRY \<longrightarrow>
            (\<exists>b es. sem_calls (since w (world_of (updatePhilosopher philosopher w))) =
                     SemTryWait MaxAllowedEating b # es))"
proof (intro conjI impI allI)
  assume "state philosopher = THINKING \<and> state (base (philosophers w ! i)) \<noteq> EATING"
  with updatePhilosopher_overwrite [OF assms]
  show "\<exists>w'. updatePhilosopher philosopher w = Returns None w' \<and>
           philosophers w' = (philosophers w)[i := (philosophers w ! i)\<lparr>base := philosopher\<rparr>] \<and>
           chopsticks w' = chopsticks w \<and> maxAllowedEating w' = maxAllowedEating w \<and>
           sem_calls (since w w') = []"
    by (simp add: since_def sem_calls_def logClientAction_def)
next
  fix s
  assume "SemPost s \<in> set (since w (world_of (updatePhilosopher philosopher w)))"
  from updatePhilosopher_posts [OF this] assms
  show "state philosopher = THINKING" "state (base (philosophers w ! i)) = EATING"
    by auto
next
  assume "state philosopher = HUNGRY"
  with updatePhilosopher_hungry [OF assms]
    negotiate_probes_gate [of "setBase i philosopher w" philosopher i]
  show "\<exists>b es. sem_calls (since w (world_of (updatePhilosopher philosopher w))) =
                 SemTryWait MaxAllowedEating b # es"
    by simp
qed

theorem only_eating_to_thinking_releases_witness:
  "(case run [REQUEST_CREATE, REQUEST_CREATE] start of
      Returns _ w \<Rightarrow>
        (\<exists>w'. updatePhilosopher \<lparr>id_philosopher = 1, state = THINKING, stateTimer = 6\<rparr> w =
                 Returns None w' \<and>
               philosophers w' =
                 (philosophers w)[0 := (philosophers w ! 0)
                    \<lparr>base := \<lparr>id_philosopher = 1, state = THINKING, stateTimer = 6\<rparr>\<rparr>] \<and>
               chopsticks w' = chopsticks w \<and>
               maxAllowedEating w' = maxAllowedEating w \<and>
               sem_calls (since w w') = [])
    | _ \<Rightarrow> False)"
proof -
  let ?rs = "[REQUEST_CREATE, REQUEST_CREATE]"
  let ?p = "\<lparr>id_philosopher = 1, state = THINKING, stateTimer = 6\<rparr>"
  have "(case run ?rs start of
           Returns _ w \<Rightarrow>
             getPhilosopherFromId 1 (philosophers w) = Some 0 \<and>
             state (base (philosophers w ! 0)) = THINKING
         | _ \<Rightarrow> False)"
    by code_simp
  then obtain w where r: "run ?rs start = Returns () w"
    and h: "getPhilosopherFromId (id_philosopher ?p) (philosophers w) = Some 0"
    and t: "state (base (philosophers w ! 0)) = THINKING"
    by (cases "run ?rs start") auto
  from only_eating_to_thinking_releases [OF h] t r show ?thesis
    by simp
qed

text \<open>
  The claim as stated fails for a stored \<^verbatim>\<open>HUNGRY\<close> meeting an incoming \<^verbatim>\<open>HUNGRY\<close>. Take the
  store after two joins with the first philosopher's stored state set to \<^verbatim>\<open>HUNGRY\<close> (what an
  update in flight leaves in the table): the update takes a permit of the counter and both
  chopsticks and stores \<^verbatim>\<open>EATING\<close>.
\<close>

theorem hungry_on_hungry_counterexample:
  "(case run [REQUEST_CREATE, REQUEST_CREATE] start of
      Returns _ w \<Rightarrow>
        (let hungry = \<lparr>id_philosopher = 1, state = HUNGRY, stateTimer = 0\<rparr>;
             w = setBase 0 hungry w
         in state (base (philosophers w ! 0)) = HUNGRY \<and>
            (case updatePhilosopher hungry w of
               Returns res w' \<Rightarrow>
                 \<not> (maxAllowedEating w' = maxAllowedEating w \<and> chopsticks w' = chopsticks w \<and>
                    base (philosophers w' ! 0) = hungry) \<and>
                 maxAllowedEating w' = maxAllowedEating w - 1 \<and>
                 usage (chopsticks w ! 0) = 1 \<and> usage (chopsticks w' ! 0) = 0 \<and>
                 usage (chopsticks w ! 1) = 1 \<and> usage (chopsticks w' ! 1) = 0 \<and>
                 state (base (philosophers w' ! 0)) = EATING
             | _ \<Rightarrow> False))
    | _ \<Rightarrow> False)"
  by code_simp

section \<open>Identity 0\<close>

lemma negotiate_no_error_record:
  "unknownIdentityRecord \<notin> set (since w (world_of (negotiate philosopher i w)))"
  by (auto simp: negotiate_def afterGate_def takeLeft_def afterLeft_def takeRight_def grant_def acquire_eq Let_def since_def
      unknownIdentityRecord_def split: option.splits)

lemma negotiate_free_slot:
  assumes "leftChopstick (philosophers w ! i) = None"
  shows "philosophers (world_of (negotiate philosopher i w)) = philosophers w \<and>
         (\<forall>res w'. negotiate philosopher i w \<noteq> Returns res w')"
  using assms
  by (auto simp: negotiate_def afterGate_def takeLeft_def acquire_eq Let_def)

text \<open>
  Claim C9, as the code has it. In any memory reached by a run in which fewer than
  \<^verbatim>\<open>MAX_PHILOSOPHERS\<close> philosophers have joined, the scan for identity 0 stops at slot
  \<^verbatim>\<open>numberPhilosophers\<close>, the first slot not in use. An update carrying identity 0 therefore
  never takes the unknown-identity branch: its outcome is not the \<^verbatim>\<open>NULL\<close> return with the
  error record, and that record is not sent. Whether the slot is written depends on the
  incoming state. A state outside the enumeration falls through every test: the call returns
  \<^verbatim>\<open>NULL\<close> and the memory is untouched. An incoming \<^verbatim>\<open>THINKING\<close> on a slot left \<^verbatim>\<open>EATING\<close> by an
  earlier update with identity 0 faults on the \<^verbatim>\<open>NULL\<close> left chopstick before anything is
  written. In every other case the incoming record is written to the slot: \<^verbatim>\<open>THINKING\<close> and
  \<^verbatim>\<open>EATING\<close> then return \<^verbatim>\<open>NULL\<close>; \<^verbatim>\<open>HUNGRY\<close> then waits for the counter when it is 0 and
  otherwise faults on the \<^verbatim>\<open>NULL\<close> left chopstick.
\<close>

theorem identity_zero_matches_free_slot:
  assumes "run rs start = Returns () w" "numberPhilosophers w < MAX_PHILOSOPHERS"
    and "id_philosopher philosopher = 0"
  shows "getPhilosopherFromId (id_philosopher philosopher) (philosophers w) =
           Some (numberPhilosophers w) \<and>
         updatePhilosopher philosopher w \<noteq>
           Returns None (w\<lparr>trace := trace w @ [unknownIdentityRecord]\<rparr>) \<and>
         unknownIdentityRecord \<notin> set (since w (world_of (updatePhilosopher philosopher w))) \<and>
         (if state philosopher = INVALID
          then updatePhilosopher philosopher w = Returns None w
          else if state philosopher = THINKING \<and>
                  state (base (philosophers w ! numberPhilosophers w)) = EATING
          then updatePhilosopher philosopher w = Faults w
          else base (philosophers (world_of (updatePhilosopher philosopher w)) !
                 numberPhilosophers w) = philosopher \<and>
               (if state philosopher \<noteq> HUNGRY
                then \<exists>w'. updatePhilosopher philosopher w = Returns None w'
                else if maxAllowedEating w = 0
                then \<exists>k w'. updatePhilosopher philosopher w = Waits MaxAllowedEating k w'
                else \<exists>w'. updatePhilosopher philosopher w = Faults w'))"
proof -
  let ?n = "numberPhilosophers w"
  let ?out = "updatePhilosopher philosopher w"
  let ?v = "setBase ?n philosopher w"
  note t = run_start_tables(1) [OF assms(1)]
  note s = tables_sizes [OF t]
  have found: "getPhilosopherFromId (id_philosopher philosopher) (philosophers w) = Some ?n"
    using tables_lookup_zero [OF t assms(2)] assms(3) by simp
  have left: "leftChopstick (philosophers w ! ?n) = None"
    using tables_free_slot(2) [OF t _ assms(2)] by simp
  have n: "?n < length (philosophers w)"
    using s(1) assms(2) by simp
  have differs: "Returns None w \<noteq> Returns None (w\<lparr>trace := trace w @ [unknownIdentityRecord]\<rparr>)"
  proof
    assume "Returns None w = Returns None (w\<lparr>trace := trace w @ [unknownIdentityRecord]\<rparr>)"
    then have "trace w = trace (w\<lparr>trace := trace w @ [unknownIdentityRecord]\<rparr>)"
      by simp
    then show False
      by simp
  qed
  have "?out \<noteq> Returns None (w\<lparr>trace := trace w @ [unknownIdentityRecord]\<rparr>) \<and>
      unknownIdentityRecord \<notin> set (since w (world_of ?out)) \<and>
      (if state philosopher = INVALID then ?out = Returns None w
       else if state philosopher = THINKING \<and> state (base (philosophers w ! ?n)) = EATING
       then ?out = Faults w
       else base (philosophers (world_of ?out) ! ?n) = philosopher \<and>
            (if state philosopher \<noteq> HUNGRY then \<exists>w'. ?out = Returns None w'
             else if maxAllowedEating w = 0 then \<exists>k w'. ?out = Waits MaxAllowedEating k w'
             else \<exists>w'. ?out = Faults w'))"
  proof (cases "state philosopher")
    case HUNGRY
    have u: "?out = negotiate philosopher ?n ?v"
      by (rule updatePhilosopher_hungry [OF found HUNGRY])
    have l: "leftChopstick (philosophers ?v ! ?n) = None"
      using left n by simp
    have "if maxAllowedEating w = 0 then \<exists>k w'. ?out = Waits MaxAllowedEating k w'
          else \<exists>w'. ?out = Faults w'"
    proof (cases "maxAllowedEating w = 0")
      case True
      with negotiate_blocked_gate [of ?v philosopher ?n] show ?thesis
        unfolding u by auto
    next
      case False
      with negotiate_fault_left [of ?v ?n philosopher] l show ?thesis
        unfolding u by auto
    qed
    with negotiate_free_slot [OF l, of philosopher]
      negotiate_no_error_record [of ?v philosopher ?n] HUNGRY n
    show ?thesis
      by (simp add: u)
  next
    case INVALID
    with found have "?out = Returns None w"
      by (simp add: updatePhilosopher_def)
    with INVALID differs show ?thesis
      by (simp add: since_def)
  next
    case EATING
    then have c: "state philosopher = EATING \<or> state philosopher = THINKING \<and>
        state (base (philosophers w ! ?n)) \<noteq> EATING"
      by simp
    from updatePhilosopher_overwrite [OF found c]
    have out: "?out = Returns None (logClientAction philosopher ?v)" .
    from logClientAction_trace [of philosopher ?v]
    obtain l where tr: "trace (logClientAction philosopher ?v) =
        trace w @ [MsgSnd (Log CLIENT_PID l [id_philosopher philosopher, stateTimer philosopher])]"
      by auto
    have "?out \<noteq> Returns None (w\<lparr>trace := trace w @ [unknownIdentityRecord]\<rparr>)"
    proof
      assume "?out = Returns None (w\<lparr>trace := trace w @ [unknownIdentityRecord]\<rparr>)"
      with out have "trace (logClientAction philosopher ?v) =
          trace (w\<lparr>trace := trace w @ [unknownIdentityRecord]\<rparr>)"
        by simp
      with tr show False
        by (simp add: unknownIdentityRecord_def)
    qed
    moreover have "unknownIdentityRecord \<notin> set (since w (world_of ?out))"
      using tr by (simp add: out since_def unknownIdentityRecord_def)
    moreover have "base (philosophers (world_of ?out) ! ?n) = philosopher"
      using n by (simp add: out)
    ultimately show ?thesis
      using EATING out by simp
  next
    case THINKING
    show ?thesis
    proof (cases "state (base (philosophers w ! ?n)) = EATING")
      case True
      with updatePhilosopher_release_fault [OF found THINKING _ disjI1 [OF left]]
      obtain w' where "?out = Faults w'" "philosophers w' = philosophers w"
        by auto
      moreover from this found True THINKING left
      have "w' = w"
        by (simp add: updatePhilosopher_def release_def)
      ultimately show ?thesis
        using True THINKING by (simp add: since_def)
    next
      case False
      with THINKING have c: "state philosopher = EATING \<or> state philosopher = THINKING \<and>
          state (base (philosophers w ! ?n)) \<noteq> EATING"
        by simp
      from updatePhilosopher_overwrite [OF found c]
      have out: "?out = Returns None (logClientAction philosopher ?v)" .
      from logClientAction_trace [of philosopher ?v]
      obtain l where tr: "trace (logClientAction philosopher ?v) =
          trace w @ [MsgSnd (Log CLIENT_PID l [id_philosopher philosopher, stateTimer philosopher])]"
        by auto
      have "?out \<noteq> Returns None (w\<lparr>trace := trace w @ [unknownIdentityRecord]\<rparr>)"
      proof
        assume "?out = Returns None (w\<lparr>trace := trace w @ [unknownIdentityRecord]\<rparr>)"
        with out have "trace (logClientAction philosopher ?v) =
            trace (w\<lparr>trace := trace w @ [unknownIdentityRecord]\<rparr>)"
          by simp
        with tr show False
          by (simp add: unknownIdentityRecord_def)
      qed
      moreover have "unknownIdentityRecord \<notin> set (since w (world_of ?out))"
        using tr by (simp add: out since_def unknownIdentityRecord_def)
      moreover have "base (philosophers (world_of ?out) ! ?n) = philosopher"
        using n by (simp add: out)
      ultimately show ?thesis
        using THINKING False out by simp
    qed
  qed
  with found show ?thesis
    by simp
qed

theorem identity_zero_matches_free_slot_witness:
  "(case run [REQUEST_CREATE, REQUEST_CREATE] start of
      Returns _ w \<Rightarrow>
        getPhilosopherFromId 0 (philosophers w) = Some 2 \<and>
        philosophers w ! 2 = zero_ServerPhilosopher \<and>
        updatePhilosopher \<lparr>id_philosopher = 0, state = EATING, stateTimer = 8\<rparr> w \<noteq>
          Returns None (w\<lparr>trace := trace w @ [unknownIdentityRecord]\<rparr>) \<and>
        base (philosophers
               (world_of (updatePhilosopher \<lparr>id_philosopher = 0, state = EATING, stateTimer = 8\<rparr> w))
               ! 2) = \<lparr>id_philosopher = 0, state = EATING, stateTimer = 8\<rparr>
    | _ \<Rightarrow> False)"
proof -
  let ?rs = "[REQUEST_CREATE, REQUEST_CREATE]"
  let ?p = "\<lparr>id_philosopher = 0, state = EATING, stateTimer = 8\<rparr>"
  have "(case run ?rs start of
           Returns _ w \<Rightarrow>
             numberPhilosophers w = 2 \<and> philosophers w ! 2 = zero_ServerPhilosopher
         | _ \<Rightarrow> False)"
    by code_simp
  then obtain w where r: "run ?rs start = Returns () w"
    and n: "numberPhilosophers w = 2" and z: "philosophers w ! 2 = zero_ServerPhilosopher"
    by (cases "run ?rs start") auto
  have "numberPhilosophers w < MAX_PHILOSOPHERS" "id_philosopher ?p = 0"
    using n by (simp_all add: MAX_PHILOSOPHERS_def)
  from identity_zero_matches_free_slot [OF r this] n z r show ?thesis
    by simp
qed

text \<open>
  Two updates with identity 0 that do not write the slot they match. After two joins and an
  update \<open>(0, EATING)\<close>, slot 2 stores that record and still has no chopsticks; the update
  \<open>(0, THINKING)\<close> then finds slot 2 and faults, the table and the trace as they were. And
  after two joins alone, an update with identity 0 and a state outside the enumeration finds
  slot 2 and returns \<^verbatim>\<open>NULL\<close>, the slot still zero and nothing logged.
\<close>

theorem identity_zero_leaves_slot_counterexample:
  "(case run [REQUEST_CREATE, REQUEST_CREATE,
              REQUEST_UPDATE \<lparr>id_philosopher = 0, state = EATING, stateTimer = 8\<rparr>] start of
      Returns _ w \<Rightarrow>
        numberPhilosophers w = 2 \<and>
        getPhilosopherFromId 0 (philosophers w) = Some 2 \<and>
        (case updatePhilosopher \<lparr>id_philosopher = 0, state = THINKING, stateTimer = 4\<rparr> w of
           Faults w' \<Rightarrow>
             philosophers w' = philosophers w \<and> trace w' = trace w \<and>
             base (philosophers w' ! 2) = \<lparr>id_philosopher = 0, state = EATING, stateTimer = 8\<rparr>
         | _ \<Rightarrow> False)
    | _ \<Rightarrow> False) \<and>
   (case run [REQUEST_CREATE, REQUEST_CREATE] start of
      Returns _ w \<Rightarrow>
        numberPhilosophers w = 2 \<and>
        getPhilosopherFromId 0 (philosophers w) = Some 2 \<and>
        (case updatePhilosopher \<lparr>id_philosopher = 0, state = INVALID, stateTimer = 4\<rparr> w of
           Returns res w' \<Rightarrow>
             res = None \<and> philosophers w' = philosophers w \<and> trace w' = trace w \<and>
             philosophers w' ! 2 = zero_ServerPhilosopher
         | _ \<Rightarrow> False)
    | _ \<Rightarrow> False)"
  by code_simp

section \<open>Counting\<close>

lemma count_same:
  assumes "\<And>j. j < n \<Longrightarrow> P' j = P j"
  shows "length (filter P' [0..<n]) = length (filter P [0..<n])"
proof -
  have "filter P' [0..<n] = filter P [0..<n]"
    by (rule filter_cong) (use assms in auto)
  then show ?thesis by simp
qed

lemma count_changed:
  assumes "i < n" "\<And>j. j < n \<Longrightarrow> j \<noteq> i \<Longrightarrow> P' j = P j"
  shows "length (filter P' [0..<n]) + (if P i then 1 else 0) =
         length (filter P [0..<n]) + (if P' i then 1 else 0)"
  using assms
proof (induction n)
  case 0
  then show ?case by simp
next
  case (Suc n)
  show ?case
  proof (cases "i = n")
    case True
    have "length (filter P' [0..<n]) = length (filter P [0..<n])"
      by (rule count_same) (use Suc.prems(2) True in auto)
    with True show ?thesis by simp
  next
    case False
    with Suc.prems have i: "i < n" and n: "P' n = P n"
      by simp_all
    have "length (filter P' [0..<n]) + (if P i then 1 else 0) =
        length (filter P [0..<n]) + (if P' i then 1 else 0)"
      by (rule Suc.IH) (use i Suc.prems(2) in auto)
    with n show ?thesis
      by auto
  qed
qed

lemma dining_start: "dining start"
  by (simp add: dining_def tables_start start_empty start_gate eating_def)

lemma dining_parts:
  assumes "dining w"
  shows "tables w"
    and "maxAllowedEating w + eating w = numberPhilosophers w div 2"
    and "\<And>c. c < numberPhilosophers w \<Longrightarrow> usage (chopsticks w ! c) + holders w c = 1"
  using assms by (simp_all add: dining_def)

lemma free_not_held:
  assumes "dining w" "c < numberPhilosophers w" "0 < usage (chopsticks w ! c)"
    and "j < numberPhilosophers w"
  shows "\<not> holds w c j" "usage (chopsticks w ! c) = 1"
proof -
  from dining_parts(3) [OF assms(1,2)] assms(3)
  have "holders w c = 0" and one: "usage (chopsticks w ! c) = 1"
    by simp_all
  from \<open>holders w c = 0\<close> assms(4) show "\<not> holds w c j"
    by (auto simp: holders_def filter_empty_conv)
  show "usage (chopsticks w ! c) = 1"
    by (rule one)
qed

lemma last_not_eating:
  assumes "dining w" "createPhilosopher w = Returns p w'" "0 < numberPhilosophers w"
  shows "\<not> eating_at w (numberPhilosophers w - 1)"
proof (cases "2 \<le> numberPhilosophers w")
  case True
  let ?n = "numberPhilosophers w"
  note t = dining_parts(1) [OF assms(1)]
  from createPhilosopher_Returns(2) [OF t assms(2) True]
  have "\<not> holds w 0 (?n - 1)"
    using free_not_held(1) [OF assms(1), of 0 "?n - 1"] True by simp
  moreover have "rightChopstick (philosophers w ! (?n - 1)) = Some 0"
    using tables_slot(3) [OF t, of "?n - 1"] True by (simp add: ring_def)
  ultimately show ?thesis
    by (simp add: holds_def)
next
  case False
  with assms(3) have n: "numberPhilosophers w = 1"
    by simp
  with dining_parts(2) [OF assms(1)] have "eating w = 0"
    by simp
  with n show ?thesis
    by (auto simp: eating_def split: if_splits)
qed

lemma createPhilosopher_dining:
  assumes "dining w" "createPhilosopher w = Returns p w'"
  shows "dining w'"
proof -
  let ?n = "numberPhilosophers w"
  note t = dining_parts(1) [OF assms(1)]
  note s = tables_sizes [OF t]
  note r = createPhilosopher_Returns [OF t assms(2)]
  have t': "tables w'"
    by (rule createPhilosopher_tables [OF t assms(2)])
  have bound: "?n < length (philosophers w)"
    using r(1) s(1) by simp
  have base_old: "base (philosophers w' ! j) = base (philosophers w ! j)" if "j < ?n" for j
    using that bound by (auto simp: r(5) nth_list_update)
  have left_old: "leftChopstick (philosophers w' ! j) = leftChopstick (philosophers w ! j)"
    if "j < ?n" for j
    using that bound by (auto simp: r(5) nth_list_update)
  have right_old: "rightChopstick (philosophers w' ! j) = rightChopstick (philosophers w ! j)"
    if "j < ?n" "Suc j \<noteq> ?n" for j
    using that bound by (auto simp: r(5) nth_list_update)
  have new: "philosophers w' ! ?n = joined ?n"
    using bound by (auto simp: r(5))
  have eat_old: "eating_at w' j = eating_at w j" if "j < ?n" for j
    using base_old [OF that] by (simp add: eating_at_def)
  have eat_new: "\<not> eating_at w' ?n"
    by (simp add: eating_at_def new joined_def)
  have eat_last: "\<not> eating_at w j" if "Suc j = ?n" for j
  proof -
    from that have "0 < ?n" "?n - 1 = j"
      by simp_all
    with last_not_eating [OF assms] show ?thesis
      by simp
  qed
  have "eating w' = eating w"
    using eat_new count_same [of ?n "eating_at w'" "eating_at w"] eat_old
    by (simp add: eating_def r(4))
  with dining_parts(2) [OF assms(1)]
  have gate: "maxAllowedEating w' + eating w' = numberPhilosophers w' div 2"
    by (simp add: r(4,7))
  have hold_old: "holds w' c j = holds w c j" if "j < ?n" "c < ?n" for c j
  proof (cases "Suc j = ?n")
    case True
    with eat_last eat_old [OF that(1)] show ?thesis
      by (simp add: holds_def)
  next
    case False
    with eat_old left_old right_old that(1) show ?thesis
      by (simp add: holds_def)
  qed
  have hold_new: "\<not> holds w' c ?n" for c
    using eat_new by (simp add: holds_def)
  have hold_fresh: "\<not> holds w' ?n j" if "j < ?n" for j
  proof (cases "Suc j = ?n")
    case True
    with eat_last eat_old [OF that] show ?thesis
      by (simp add: holds_def)
  next
    case False
    have "rightChopstick (philosophers w ! j) \<noteq> Some ?n"
    proof
      assume "rightChopstick (philosophers w ! j) = Some ?n"
      with tables_slot(3) [OF t that] have "ring ?n j = Some ?n"
        by simp
      from ring_distinct(2) [OF this that] show False
        by simp
    qed
    moreover from tables_slot(2) [OF t that] that
    have "leftChopstick (philosophers w ! j) \<noteq> Some ?n"
      by simp
    ultimately have "leftChopstick (philosophers w ! j) \<noteq> Some ?n"
      "rightChopstick (philosophers w ! j) \<noteq> Some ?n"
      by simp_all
    with left_old [OF that] right_old [OF that False] show ?thesis
      by (simp add: holds_def)
  qed
  have "usage (chopsticks w' ! c) + holders w' c = 1" if "c < numberPhilosophers w'" for c
  proof (cases "c = ?n")
    case True
    have "holders w' ?n = 0"
      using hold_fresh hold_new by (auto simp: holders_def r(4) filter_empty_conv less_Suc_eq)
    moreover have "usage (chopsticks w' ! ?n) = 1"
      using r(1) s(2) by (simp add: r(6))
    ultimately show ?thesis
      using True by simp
  next
    case False
    with that have c: "c < ?n"
      by (simp add: r(4))
    have "holders w' c = holders w c"
      using hold_new count_same [of ?n "holds w' c" "holds w c"] hold_old c
      by (simp add: holders_def r(4))
    moreover have "chopsticks w' ! c = chopsticks w ! c"
      using False by (simp add: r(6))
    ultimately show ?thesis
      using dining_parts(3) [OF assms(1) c] by simp
  qed
  with t' gate show ?thesis
    by (simp add: dining_def)
qed

lemma dining_trace [simp]: "dining (w\<lparr>trace := t\<rparr>) = dining w"
proof -
  have "eating_at (w\<lparr>trace := t\<rparr>) = eating_at w"
    by (rule ext) (simp add: eating_at_def)
  moreover from this have "holds (w\<lparr>trace := t\<rparr>) c = holds w c" for c
    by (intro ext) (simp add: holds_def)
  ultimately show ?thesis
    by (simp add: dining_def eating_def holders_def)
qed

lemma updatePhilosopher_dining:
  assumes "dining w" "updatePhilosopher philosopher w = Returns res w'"
    and "acknowledged (REQUEST_UPDATE philosopher) w"
  shows "dining w'"
proof -
  let ?n = "numberPhilosophers w"
  note t = dining_parts(1) [OF assms(1)]
  note s = tables_sizes [OF t]
  have t': "tables w'"
    by (rule updatePhilosopher_tables [OF t assms(2)])
  have n': "numberPhilosophers w' = ?n"
    using updatePhilosopher_numberPhilosophers [of philosopher w] assms(2) by simp
  from t assms(2) show ?thesis
  proof (cases rule: updatePhilosopher_Returns_cases)
    case unknown
    with assms(1) show ?thesis by simp
  next
    case (overwrite i)
    note found = update_found [OF overwrite(1)]
    have i: "i < length (philosophers w)"
      using found(1) s(1) by simp
    have same: "state (base (philosophers w ! i)) = EATING \<longleftrightarrow> state philosopher = EATING"
      using overwrite(2) assms(3) overwrite(1) by auto
    have eat: "eating_at w' j = eating_at w j" for j
      using same i by (cases "j = i") (simp_all add: eating_at_def overwrite(4))
    have refs: "leftChopstick (philosophers w' ! j) = leftChopstick (philosophers w ! j)"
      "rightChopstick (philosophers w' ! j) = rightChopstick (philosophers w ! j)" for j
      using i by (cases "j = i"; simp add: overwrite(4))+
    have "eating_at w' = eating_at w"
      by (rule ext) (rule eat)
    moreover from this refs have "holds w' c = holds w c" for c
      by (intro ext) (simp add: holds_def)
    ultimately have "eating w' = eating w" "holders w' c = holders w c" for c
      by (simp_all add: eating_def holders_def n')
    with dining_parts(2,3) [OF assms(1)] t' show ?thesis
      by (simp add: dining_def n' overwrite(5,6))
  next
    case (release i r)
    note d = ring_distinct [OF release(3,2)]
    note slot = tables_slot [OF t release(2)]
    have i: "i < length (philosophers w)" "i < length (chopsticks w)" "r < length (chopsticks w)"
      using release(2) d(2) s(1,2,3) by simp_all
    have eat_i: "eating_at w i" "\<not> eating_at w' i"
      using release(4,5) i by (simp_all add: eating_at_def release(7))
    have eat: "eating_at w' j = eating_at w j" if "j \<noteq> i" for j
      using that by (simp add: eating_at_def release(7))
    have refs: "leftChopstick (philosophers w' ! j) = leftChopstick (philosophers w ! j)"
      "rightChopstick (philosophers w' ! j) = rightChopstick (philosophers w ! j)" for j
      using i by (cases "j = i"; simp add: release(7))+
    from count_changed [of i ?n "eating_at w'" "eating_at w"] eat eat_i release(2)
    have "eating w' + 1 = eating w"
      by (simp add: eating_def n')
    with dining_parts(2) [OF assms(1)]
    have gate: "maxAllowedEating w' + eating w' = numberPhilosophers w' div 2"
      by (simp add: n' release(9))
    have "usage (chopsticks w' ! c) + holders w' c = 1" if c: "c < ?n" for c
    proof -
      have held: "holds w c i \<longleftrightarrow> c = i \<or> c = r" "\<not> holds w' c i"
        using eat_i slot(2,3) release(3) by (auto simp: holds_def refs)
      have "holds w' c j = holds w c j" if "j \<noteq> i" for j
        using eat [OF that] refs by (simp add: holds_def)
      from count_changed [of i ?n "holds w' c" "holds w c"] this held release(2)
      have "holders w' c + (if c = i \<or> c = r then 1 else 0) = holders w c"
        by (simp add: holders_def n')
      moreover have "usage (chopsticks w' ! c) =
          usage (chopsticks w ! c) + (if c = i \<or> c = r then 1 else 0)"
        using i d(1) by (auto simp: release(8) nth_list_update)
      ultimately show ?thesis
        using dining_parts(3) [OF assms(1) c] by simp
    qed
    with t' gate show ?thesis
      by (simp add: dining_def n')
  next
    case (granted i r)
    note d = ring_distinct [OF granted(3,2)]
    note slot = tables_slot [OF t granted(2)]
    have i: "i < length (philosophers w)" "i < length (chopsticks w)" "r < length (chopsticks w)"
      using granted(2) d(2) s(1,2,3) by simp_all
    have "\<not> holds w i i"
      by (rule free_not_held(1) [OF assms(1) granted(2,6,2)])
    with slot(2) have was: "\<not> eating_at w i"
      by (simp add: holds_def)
    have now: "eating_at w' i"
      using i by (simp add: eating_at_def granted(9))
    have eat: "eating_at w' j = eating_at w j" if "j \<noteq> i" for j
      using that by (simp add: eating_at_def granted(9))
    have refs: "leftChopstick (philosophers w' ! j) = leftChopstick (philosophers w ! j)"
      "rightChopstick (philosophers w' ! j) = rightChopstick (philosophers w ! j)" for j
      using i by (cases "j = i"; simp add: granted(9))+
    from count_changed [of i ?n "eating_at w'" "eating_at w"] eat was now granted(2)
    have "eating w' = eating w + 1"
      by (simp add: eating_def n')
    with dining_parts(2) [OF assms(1)] granted(5)
    have gate: "maxAllowedEating w' + eating w' = numberPhilosophers w' div 2"
      by (simp add: n' granted(11))
    have "usage (chopsticks w' ! c) + holders w' c = 1" if c: "c < ?n" for c
    proof -
      have held: "\<not> holds w c i" "holds w' c i \<longleftrightarrow> c = i \<or> c = r"
        using was now slot(2,3) granted(3) by (auto simp: holds_def refs)
      have "holds w' c j = holds w c j" if "j \<noteq> i" for j
        using eat [OF that] refs by (simp add: holds_def)
      from count_changed [of i ?n "holds w' c" "holds w c"] this held granted(2)
      have "holders w' c = holders w c + (if c = i \<or> c = r then 1 else 0)"
        by (simp add: holders_def n')
      moreover have "usage (chopsticks w' ! c) =
          usage (chopsticks w ! c) - (if c = i \<or> c = r then 1 else 0)"
        using i d(1) by (auto simp: granted(10) nth_list_update)
      moreover have "usage (chopsticks w ! i) = 1" "usage (chopsticks w ! r) = 1"
        using free_not_held(2) [OF assms(1) granted(2,6,2)]
          free_not_held(2) [OF assms(1) d(2) granted(7,2)] by simp_all
      ultimately show ?thesis
        using dining_parts(3) [OF assms(1) c] by auto
    qed
    with t' gate show ?thesis
      by (simp add: dining_def n')
  next
    case (invalid i)
    with assms(1) show ?thesis by simp
  qed
qed

lemma serve_dining:
  assumes "dining w" "acknowledged r w" "serve r w = Returns u w'"
  shows "dining w'"
proof (cases r)
  case REQUEST_CREATE
  with assms show ?thesis
    by (cases "createPhilosopher w") (auto dest: createPhilosopher_dining)
next
  case (REQUEST_UPDATE philosopher)
  with assms(3) obtain res where "updatePhilosopher philosopher w = Returns res w'"
    by (cases "updatePhilosopher philosopher w") auto
  from updatePhilosopher_dining [OF assms(1) this] assms(2) REQUEST_UPDATE show ?thesis
    by simp
qed

lemma run_dining:
  assumes "dining w" "acknowledging rs w" "run rs w = Returns u w'"
  shows "dining w'"
  using assms
proof (induction rs arbitrary: w)
  case Nil
  then show ?case by simp
next
  case (Cons r rs)
  from Cons.prems(3) obtain w1 where 1: "serve r w = Returns () w1" "run rs w1 = Returns u w'"
    by (rule run_Cons_Returns)
  from Cons.prems(2) 1(1) have "acknowledged r w" "acknowledging rs w1"
    by simp_all
  from Cons.IH [OF serve_dining [OF Cons.prems(1) this(1) 1(1)] this(2) 1(2)]
  show ?case .
qed

section \<open>The counter and the eating philosophers\<close>

text \<open>
  Claim C1, as the code has it. Take a run of join and update requests in which an update
  carrying \<^verbatim>\<open>EATING\<close> is only ever sent for a philosopher already stored as \<^verbatim>\<open>EATING\<close> (the
  acknowledgement of a grant, as the client sends it). Whenever the run has returned, the
  value of \<^verbatim>\<open>maxAllowedEating\<close> is half the number of philosophers, rounded down, minus the
  number of joined philosophers whose stored state is \<^verbatim>\<open>EATING\<close>.
\<close>

theorem gate_counts_eating:
  assumes "acknowledging rs start" "run rs start = Returns () w"
  shows "int (maxAllowedEating w) = int (numberPhilosophers w div 2) - int (eating w) \<and>
         eating w \<le> numberPhilosophers w div 2"
  using dining_parts(2) [OF run_dining [OF dining_start assms]]
  by linarith

theorem gate_counts_eating_witness:
  "(case run [REQUEST_CREATE, REQUEST_CREATE, REQUEST_CREATE, REQUEST_CREATE,
              REQUEST_UPDATE \<lparr>id_philosopher = 1, state = HUNGRY, stateTimer = 0\<rparr>,
              REQUEST_UPDATE \<lparr>id_philosopher = 3, state = HUNGRY, stateTimer = 0\<rparr>,
              REQUEST_UPDATE \<lparr>id_philosopher = 1, state = EATING, stateTimer = 7\<rparr>,
              REQUEST_UPDATE \<lparr>id_philosopher = 1, state = THINKING, stateTimer = 9\<rparr>] start of
      Returns _ w \<Rightarrow>
        numberPhilosophers w = 4 \<and> eating w = 1 \<and> maxAllowedEating w = 1 \<and>
        int (maxAllowedEating w) = int (numberPhilosophers w div 2) - int (eating w)
    | _ \<Rightarrow> False)"
proof -
  let ?rs = "[REQUEST_CREATE, REQUEST_CREATE, REQUEST_CREATE, REQUEST_CREATE,
              REQUEST_UPDATE \<lparr>id_philosopher = 1, state = HUNGRY, stateTimer = 0\<rparr>,
              REQUEST_UPDATE \<lparr>id_philosopher = 3, state = HUNGRY, stateTimer = 0\<rparr>,
              REQUEST_UPDATE \<lparr>id_philosopher = 1, state = EATING, stateTimer = 7\<rparr>,
              REQUEST_UPDATE \<lparr>id_philosopher = 1, state = THINKING, stateTimer = 9\<rparr>]"
  have a: "acknowledging ?rs start"
    by code_simp
  have "(case run ?rs start of
           Returns _ w \<Rightarrow> numberPhilosophers w = 4 \<and> eating w = 1 \<and> maxAllowedEating w = 1
         | _ \<Rightarrow> False)"
    by code_simp
  then obtain w where r: "run ?rs start = Returns () w"
    and v: "numberPhilosophers w = 4" "eating w = 1" "maxAllowedEating w = 1"
    by (cases "run ?rs start") auto
  from gate_counts_eating [OF a r] r v show ?thesis
    by simp
qed

text \<open>
  The claim as stated, for every sequence of operations, fails when an update carries
  \<^verbatim>\<open>EATING\<close> for a philosopher that was not granted it: the stored state becomes \<^verbatim>\<open>EATING\<close>
  and no permit is taken.
\<close>

theorem ungranted_eating_counterexample:
  "(case run [REQUEST_CREATE, REQUEST_CREATE,
              REQUEST_UPDATE \<lparr>id_philosopher = 1, state = EATING, stateTimer = 5\<rparr>] start of
      Returns _ w \<Rightarrow>
        numberPhilosophers w = 2 \<and> eating w = 1 \<and> maxAllowedEating w = 1 \<and>
        int (maxAllowedEating w) \<noteq> int (numberPhilosophers w div 2) - int (eating w)
    | _ \<Rightarrow> False)"
  by code_simp


end
